theory Spec2Isabelle
  imports Main
begin

section \<open>Errors of the file system\<close>

text \<open>
  The handler only inspects an error through \<open>errors.Is(err, fs.ErrNotExist)\<close> and
  \<open>errors.Is(err, fs.ErrPermission)\<close>. The two sentinels of package \<open>io/fs\<close> are
  constructors; \<open>ErrOther\<close> stands for any other error value (an I/O failure, named by
  its message); \<open>PathError op path err\<close> is \<open>*fs.PathError\<close>, the wrapper the operating
  system's file operations return, whose \<open>Unwrap\<close> yields \<open>err\<close>.
\<close>

datatype go_error =
    ErrNotExist
  | ErrPermission
  | ErrOther string
  | PathError string string go_error

text \<open>\<open>errors.Is\<close>: the error itself or any error down its \<open>Unwrap\<close> chain equals the target.\<close>

fun errors_Is :: "go_error \<Rightarrow> go_error \<Rightarrow> bool" where
  "errors_Is (PathError opn p e) target = (PathError opn p e = target \<or> errors_Is e target)"
| "errors_Is e target = (e = target)"

section \<open>The abstract file system\<close>

text \<open>
  \<open>fs.FileInfo\<close>, reduced to what the handler reads: \<open>Name()\<close>, \<open>ModTime()\<close> and
  \<open>Mode().IsRegular()\<close>.
\<close>

record fileinfo =
  Name :: string
  ModTime :: int
  IsRegular :: bool

text \<open>
  \<open>http.File\<close>: the outcome of its \<open>Stat()\<close> and the bytes a reader gets from it.
  \<open>http.FileSystem\<close> is its \<open>Open\<close> method: a name gives an error or a file.
\<close>

record File =
  Stat :: "go_error + fileinfo"
  contents :: string

type_synonym filesystem = "string \<Rightarrow> go_error + File"

section \<open>Requests, responses and the calls a handler makes\<close>

text \<open>
  \<open>*http.Request\<close>: the method, the header, and of \<open>r.URL\<close> the fields the handler
  reads: \<open>Path\<close>, \<open>RawQuery\<close> and the value of \<open>EscapedFragment()\<close>.
\<close>

record request =
  Method :: string
  Path :: string
  RawQuery :: string
  EscapedFragment :: string
  Header :: "(string \<times> string) list"

record response =
  status :: nat
  header :: "string \<rightharpoonup> string"
  body :: string

text \<open>
  Everything the handler does to the outside is a call: on the file system
  (\<open>h.fs.Open(name)\<close> with the error it returned, \<open>f.Stat()\<close> and \<open>f.Close()\<close> on the
  file opened under that name), on the response writer (\<open>w.Header().Set\<close>,
  \<open>w.WriteHeader\<close>, \<open>http.Error\<close>, \<open>http.ServeContent\<close> with the name, the modification
  time and the content it is given), and \<open>CallHandleError\<close> marks the entry into
  \<open>handleError\<close> with its error argument. A run of the handler is the list of its
  calls in the order they happen.
\<close>

datatype call =
    FsOpen string "go_error option"
  | FileStat string "go_error option"
  | FileClose string
  | CallHandleError go_error
  | SetHeader string string
  | WriteHeader nat
  | HttpError string nat
  | ServeContent string int string

definition StatusMovedPermanently :: nat where
  "StatusMovedPermanently = 301"

definition StatusInternalServerError :: nat where
  "StatusInternalServerError = 500"

text \<open>\<open>http.StatusText\<close>, on the two codes of this package.\<close>

definition StatusText :: "nat \<Rightarrow> string" where
  "StatusText code =
     (if code = 301 then ''Moved Permanently''
      else if code = 500 then ''Internal Server Error''
      else [])"

section \<open>Strings and paths\<close>

text \<open>\<open>strings.HasPrefix\<close> and \<open>strings.HasSuffix\<close>: a length test and a slice comparison.\<close>

definition HasPrefix :: "string \<Rightarrow> string \<Rightarrow> bool" where
  "HasPrefix s pre = (length s \<ge> length pre \<and> take (length pre) s = pre)"

definition HasSuffix :: "string \<Rightarrow> string \<Rightarrow> bool" where
  "HasSuffix s suf = (length s \<ge> length suf \<and> drop (length s - length suf) s = suf)"

text \<open>
  \<open>path.Clean\<close> of the Go standard library, byte by byte as the library does it. The
  library reads \<open>path\<close> at index \<open>r\<close> and writes a buffer of \<open>w\<close> bytes; \<open>dotdot\<close> is the
  index in the buffer where backtracking over \<open>..\<close> must stop. Here the unread part of
  \<open>path\<close> is the last argument and the buffer holds exactly its \<open>w\<close> written bytes.

  \<open>backtrack\<close> is the inner loop of the \<open>..\<close> case:
  \<^verbatim>\<open>for out.w > dotdot && out.index(out.w) != '/' { out.w-- }\<close>
\<close>

fun backtrack :: "string \<Rightarrow> nat \<Rightarrow> nat \<Rightarrow> nat" where
  "backtrack out dotdot w =
     (if w > dotdot \<and> out ! w \<noteq> CHR ''/'' then backtrack out dotdot (w - 1) else w)"

declare backtrack.simps [simp del]

function clean_loop :: "bool \<Rightarrow> string \<Rightarrow> nat \<Rightarrow> string \<Rightarrow> string" where
  "clean_loop rooted out dotdot [] = out"
| "clean_loop rooted out dotdot (c # rest) =
     (if c = CHR ''/'' then
        \<comment> \<open>empty path element\<close>
        clean_loop rooted out dotdot rest
      else if c = CHR ''.'' \<and> (case rest of [] \<Rightarrow> True | d # _ \<Rightarrow> d = CHR ''/'') then
        \<comment> \<open>. element\<close>
        clean_loop rooted out dotdot rest
      else if c = CHR ''.'' \<and>
              (case rest of
                 [] \<Rightarrow> False
               | d # rest' \<Rightarrow> d = CHR ''.'' \<and> (case rest' of [] \<Rightarrow> True | e # _ \<Rightarrow> e = CHR ''/'')) then
        \<comment> \<open>.. element: remove to last /\<close>
        (if length out > dotdot then
           clean_loop rooted (take (backtrack out dotdot (length out - 1)) out) dotdot (tl rest)
         else if \<not> rooted then
           (let out' = (if length out > 0 then out @ ''/'' else out) @ ''..''
            in clean_loop rooted out' (length out') (tl rest))
         else clean_loop rooted out dotdot (tl rest))
      else
        \<comment> \<open>real path element: add slash if needed, copy element\<close>
        (let out' = (if rooted \<and> length out \<noteq> 1 \<or> \<not> rooted \<and> length out \<noteq> 0
                     then out @ ''/'' else out)
         in clean_loop rooted (out' @ takeWhile (\<lambda>x. x \<noteq> CHR ''/'') (c # rest)) dotdot
              (dropWhile (\<lambda>x. x \<noteq> CHR ''/'') (c # rest))))"
  by pat_completeness auto
termination
proof (relation "measure (\<lambda>(rooted, out, dotdot, p). length p)")
  fix c :: char and rest :: string
  assume "c \<noteq> CHR ''/''"
  then have "length (dropWhile (\<lambda>x. x \<noteq> CHR ''/'') (c # rest)) \<le> length rest"
    by (simp add: length_dropWhile_le)
  then show "((rooted, out' @ takeWhile (\<lambda>x. x \<noteq> CHR ''/'') (c # rest), dotdot,
                dropWhile (\<lambda>x. x \<noteq> CHR ''/'') (c # rest)),
               (rooted, out, dotdot, c # rest))
             \<in> measure (\<lambda>(rooted, out, dotdot, p). length p)"
    for rooted :: bool and out out' :: string and dotdot :: nat
    by simp
qed (auto split: list.splits)

declare clean_loop.simps [simp del]

definition path_Clean :: "string \<Rightarrow> string" where
  "path_Clean path =
     (if path = [] then ''.''
      else
        let rooted = (hd path = CHR ''/'');
            out = (if rooted then clean_loop True ''/'' 1 (tl path)
                   else clean_loop False [] 0 path)
        in if out = [] then ''.'' else out)"

section \<open>The handler\<close>

record handler =
  fs :: filesystem
  fallback :: string
  indexRedirect :: bool

type_synonym Option = "handler \<Rightarrow> handler"

definition StaticHandler :: "filesystem \<Rightarrow> Option list \<Rightarrow> handler" where
  "StaticHandler fsys opts =
     foldl (\<lambda>h opt. opt h) \<lparr>fs = fsys, fallback = ''/index.html'', indexRedirect = True\<rparr> opts"

definition Fallback :: "string \<Rightarrow> Option" where
  "Fallback f = (\<lambda>h. h\<lparr>fallback := f\<rparr>)"

definition NoIndexRedirect :: Option where
  "NoIndexRedirect = (\<lambda>h. h\<lparr>indexRedirect := False\<rparr>)"

definition redirect :: "request \<Rightarrow> string \<Rightarrow> call list" where
  "redirect r dst =
     (let dst1 = (if RawQuery r \<noteq> [] then dst @ ''?'' @ RawQuery r else dst);
          dst2 = (if EscapedFragment r \<noteq> [] then dst1 @ ''#'' @ EscapedFragment r else dst1)
      in [SetHeader ''Location'' dst2, WriteHeader StatusMovedPermanently])"

text \<open>
  \<open>handleError\<close>. The deferred \<open>f.Close()\<close> runs when the function returns: it is the
  last call, after everything done while the file was open.
\<close>

definition handleError :: "handler \<Rightarrow> go_error \<Rightarrow> call list" where
  "handleError h err =
     (if fallback h = [] \<or> (\<not> errors_Is err ErrNotExist \<and> \<not> errors_Is err ErrPermission) then
        [HttpError (StatusText StatusInternalServerError) StatusInternalServerError]
      else
        case fs h (fallback h) of
          Inl err' \<Rightarrow>
            [FsOpen (fallback h) (Some err'),
             HttpError (StatusText StatusInternalServerError) StatusInternalServerError]
        | Inr f \<Rightarrow>
            FsOpen (fallback h) None #
            (case Stat f of
               Inl err' \<Rightarrow>
                 [FileStat (fallback h) (Some err'),
                  HttpError (StatusText StatusInternalServerError) StatusInternalServerError]
             | Inr fi \<Rightarrow>
                 FileStat (fallback h) None #
                 (if \<not> IsRegular fi then
                    [HttpError (StatusText StatusInternalServerError) StatusInternalServerError]
                  else [ServeContent (Name fi) (ModTime fi) (contents f)]))
            @ [FileClose (fallback h)])"

text \<open>
  \<open>ServeHTTP\<close>. Its deferred \<open>f.Close()\<close> runs when \<open>ServeHTTP\<close> returns, so after
  the calls of a \<open>handleError\<close> entered while the file was open.
\<close>

definition ServeHTTP :: "handler \<Rightarrow> request \<Rightarrow> call list" where
  "ServeHTTP h r =
     (let fpath = (if \<not> HasPrefix (Path r) ''/'' then ''/'' @ Path r else Path r) in
      if indexRedirect h \<and> HasSuffix fpath ''/index.html'' then redirect r ''./''
      else if fpath \<noteq> ''/'' \<and> HasSuffix fpath ''/'' then
        CallHandleError ErrNotExist # handleError h ErrNotExist
      else
        case fs h (path_Clean fpath) of
          Inl err \<Rightarrow>
            FsOpen (path_Clean fpath) (Some err) # CallHandleError err # handleError h err
        | Inr f \<Rightarrow>
            FsOpen (path_Clean fpath) None #
            (case Stat f of
               Inl err \<Rightarrow>
                 FileStat (path_Clean fpath) (Some err) # CallHandleError err # handleError h err
             | Inr fi \<Rightarrow>
                 FileStat (path_Clean fpath) None #
                 (if \<not> IsRegular fi then
                    CallHandleError ErrNotExist # handleError h ErrNotExist
                  else [ServeContent (Name fi) (ModTime fi) (contents f)]))
            @ [FileClose (path_Clean fpath)])"

section \<open>What the client receives\<close>

text \<open>
  The response writer starts with status 200, no header and no body. \<open>http.Error\<close>
  sets the content type to plain text, writes the status and the message followed by
  a newline. \<open>http.ServeContent\<close> is the content responder of the standard library: it
  is a parameter \<open>sc\<close>, given the request, the name, the modification time and the
  content, and it produces the whole response. Both are only ever called on the writer
  as it started: they are the first call on the writer in every run of the handler.
\<close>

type_synonym responder = "request \<Rightarrow> string \<Rightarrow> int \<Rightarrow> string \<Rightarrow> response"

fun respond :: "responder \<Rightarrow> request \<Rightarrow> response \<Rightarrow> call \<Rightarrow> response" where
  "respond sc r w (SetHeader k v) = w\<lparr>header := (header w)(k \<mapsto> v)\<rparr>"
| "respond sc r w (WriteHeader code) = w\<lparr>status := code\<rparr>"
| "respond sc r w (HttpError msg code) =
     \<lparr>status = code,
      header = [''Content-Type'' \<mapsto> ''text/plain; charset=utf-8'',
                ''X-Content-Type-Options'' \<mapsto> ''nosniff''],
      body = msg @ [CHR 0x0A]\<rparr>"
| "respond sc r w (ServeContent name modtime content) = sc r name modtime content"
| "respond sc r w _ = w"

definition response_of :: "responder \<Rightarrow> request \<Rightarrow> call list \<Rightarrow> response" where
  "response_of sc r calls = foldl (respond sc r) \<lparr>status = 200, header = Map.empty, body = []\<rparr> calls"

section \<open>Open file handles along a run\<close>

text \<open>
  The handles open after a call, given those open before it: a successful \<open>Open\<close>
  adds one, \<open>Close\<close> removes one of that name.
\<close>

fun step_handles :: "string list \<Rightarrow> call \<Rightarrow> string list" where
  "step_handles hs (FsOpen p None) = p # hs"
| "step_handles hs (FileClose p) = remove1 p hs"
| "step_handles hs _ = hs"

definition open_after :: "call list \<Rightarrow> string list" where
  "open_after calls = foldl step_handles [] calls"

text \<open>The largest number of handles open at one moment of a run that starts with \<open>hs\<close> open.\<close>

fun peak_open :: "string list \<Rightarrow> call list \<Rightarrow> nat" where
  "peak_open hs [] = length hs"
| "peak_open hs (c # cs) = max (length hs) (peak_open (step_handles hs c) cs)"

text \<open>The names given to \<open>Open\<close> in a run, in order.\<close>

fun opened :: "call list \<Rightarrow> string list" where
  "opened [] = []"
| "opened (FsOpen p e # cs) = p # opened cs"
| "opened (_ # cs) = opened cs"

text \<open>Whether \<open>handleError\<close>, entered with \<open>err\<close>, gets a handle on the fallback.\<close>

definition fallback_opens :: "handler \<Rightarrow> go_error \<Rightarrow> bool" where
  "fallback_opens h err =
     (fallback h \<noteq> [] \<and> (errors_Is err ErrNotExist \<or> errors_Is err ErrPermission)
      \<and> (case fs h (fallback h) of Inl _ \<Rightarrow> False | Inr _ \<Rightarrow> True))"

section \<open>Names for the statements\<close>


text \<open>
  The value of the local variable \<open>fpath\<close> of \<open>ServeHTTP\<close> after its first statement,
  and the destination \<open>redirect\<close> computes from \<open>./\<close>.
\<close>

definition normalized :: "request \<Rightarrow> string" where
  "normalized r = (if \<not> HasPrefix (Path r) ''/'' then ''/'' @ Path r else Path r)"

abbreviation location :: "request \<Rightarrow> string" where
  "location r \<equiv> ''./'' @ (if RawQuery r \<noteq> [] then ''?'' @ RawQuery r else [])
                      @ (if EscapedFragment r \<noteq> [] then ''#'' @ EscapedFragment r else [])"

text \<open>
  For stating what \<open>path.Clean\<close> returns on a rooted path: a path element that is kept
  (not empty, without a slash, neither \<open>.\<close> nor \<open>..\<close>), and the rooted path made of
  a list of elements, \<open>/\<close> for the empty list.
\<close>

definition element :: "string \<Rightarrow> bool" where
  "element c = (c \<noteq> [] \<and> CHR ''/'' \<notin> set c \<and> c \<noteq> ''.'' \<and> c \<noteq> ''..'')"

definition rooted_path :: "string list \<Rightarrow> string" where
  "rooted_path cs = (if cs = [] then ''/'' else concat (map ((#) CHR ''/'') cs))"

text \<open>
  What the documentation of \<open>path.Clean\<close> and the specification say of a rooted path, to
  compare the loop with: split the path at every slash; go through the elements from
  left to right keeping a stack; drop an empty element (redundant slash) and \<open>.\<close>; on
  \<open>..\<close> remove the last element kept, and at the root remove nothing; keep any
  other element. The cleaned path is the rooted path of the elements kept.
\<close>

fun split_slash :: "string \<Rightarrow> string list" where
  "split_slash [] = [[]]"
| "split_slash (c # s) =
     (if c = CHR ''/'' then [] # split_slash s
      else (case split_slash s of [] \<Rightarrow> [[c]] | x # xs \<Rightarrow> (c # x) # xs))"

definition resolve_step :: "string list \<Rightarrow> string \<Rightarrow> string list" where
  "resolve_step stack c =
     (if c = [] \<or> c = ''.'' then stack
      else if c = ''..'' then butlast stack
      else stack @ [c])"

definition lexically_cleaned :: "string \<Rightarrow> string" where
  "lexically_cleaned p = rooted_path (foldl resolve_step [] (split_slash p))"

section \<open>A file tree, a responder and requests to run the handler on\<close>

text \<open>
  The tree of the package's tests: \<open>/index.html\<close>, \<open>/test.css\<close> and \<open>/dir/test.js\<close> are
  regular files, \<open>/\<close> and \<open>/dir\<close> are directories, and nothing else exists.
\<close>

definition regular_file :: "string \<Rightarrow> int \<Rightarrow> string \<Rightarrow> File" where
  "regular_file name modtime content =
     \<lparr>Stat = Inr \<lparr>Name = name, ModTime = modtime, IsRegular = True\<rparr>, contents = content\<rparr>"

definition directory :: "string \<Rightarrow> int \<Rightarrow> File" where
  "directory name modtime =
     \<lparr>Stat = Inr \<lparr>Name = name, ModTime = modtime, IsRegular = False\<rparr>, contents = []\<rparr>"

definition testFS :: filesystem where
  "testFS name =
     (if name = ''/'' then Inr (directory ''testdata'' 1)
      else if name = ''/index.html'' then Inr (regular_file ''index.html'' 2 ''<html>index</html>'')
      else if name = ''/test.css'' then Inr (regular_file ''test.css'' 3 ''body {}'')
      else if name = ''/dir'' then Inr (directory ''dir'' 4)
      else if name = ''/dir/test.js'' then Inr (regular_file ''test.js'' 5 ''void 0;'')
      else Inl (PathError ''open'' name ErrNotExist))"

text \<open>The same tree with one more name, \<open>/private\<close>, that the file system refuses to open.\<close>

definition lockedFS :: filesystem where
  "lockedFS name =
     (if name = ''/private'' then Inl (PathError ''open'' ''/private'' ErrPermission)
      else testFS name)"

text \<open>
  A content responder that answers 200 with the content, as \<open>http.ServeContent\<close> does
  for a request without conditions or ranges, and the requests of the tests.
\<close>

definition plainResponder :: responder where
  "plainResponder r name modtime content = \<lparr>status = 200, header = Map.empty, body = content\<rparr>"


definition makeRequest :: "string \<Rightarrow> string \<Rightarrow> string \<Rightarrow> string \<Rightarrow> request" where
  "makeRequest method p q f =
     \<lparr>Method = method, Path = p, RawQuery = q, EscapedFragment = f, Header = []\<rparr>"

section \<open>The runs of the handler, case by case\<close>

lemma HasSuffix_iff: "HasSuffix s suf = (\<exists>pre. s = pre @ suf)"
proof
  assume "HasSuffix s suf"
  then have "s = take (length s - length suf) s @ suf"
    by (metis HasSuffix_def append_take_drop_id)
  then show "\<exists>pre. s = pre @ suf" ..
next
  assume "\<exists>pre. s = pre @ suf"
  then show "HasSuffix s suf" by (auto simp: HasSuffix_def)
qed

lemma HasPrefix_iff: "HasPrefix s pre = (\<exists>suf. s = pre @ suf)"
proof
  assume "HasPrefix s pre"
  then have "s = pre @ drop (length pre) s"
    by (metis HasPrefix_def append_take_drop_id)
  then show "\<exists>suf. s = pre @ suf" ..
next
  assume "\<exists>suf. s = pre @ suf"
  then show "HasPrefix s pre" by (auto simp: HasPrefix_def)
qed

lemmas status_simps = StatusText_def StatusInternalServerError_def StatusMovedPermanently_def

lemma handleError_fatal:
  "fallback h = [] \<or> (\<not> errors_Is err ErrNotExist \<and> \<not> errors_Is err ErrPermission) \<Longrightarrow>
   handleError h err = [HttpError ''Internal Server Error'' 500]"
  by (auto simp: handleError_def status_simps)

lemma handleError_open_fails:
  "fallback h \<noteq> [] \<Longrightarrow> errors_Is err ErrNotExist \<or> errors_Is err ErrPermission \<Longrightarrow>
   fs h (fallback h) = Inl e \<Longrightarrow>
   handleError h err = [FsOpen (fallback h) (Some e), HttpError ''Internal Server Error'' 500]"
  by (auto simp: handleError_def status_simps)

lemma handleError_stat_fails:
  "fallback h \<noteq> [] \<Longrightarrow> errors_Is err ErrNotExist \<or> errors_Is err ErrPermission \<Longrightarrow>
   fs h (fallback h) = Inr f \<Longrightarrow> Stat f = Inl e \<Longrightarrow>
   handleError h err =
     [FsOpen (fallback h) None, FileStat (fallback h) (Some e),
      HttpError ''Internal Server Error'' 500, FileClose (fallback h)]"
  by (auto simp: handleError_def status_simps)

lemma handleError_not_regular:
  "fallback h \<noteq> [] \<Longrightarrow> errors_Is err ErrNotExist \<or> errors_Is err ErrPermission \<Longrightarrow>
   fs h (fallback h) = Inr f \<Longrightarrow> Stat f = Inr fi \<Longrightarrow> \<not> IsRegular fi \<Longrightarrow>
   handleError h err =
     [FsOpen (fallback h) None, FileStat (fallback h) None,
      HttpError ''Internal Server Error'' 500, FileClose (fallback h)]"
  by (auto simp: handleError_def status_simps)

lemma handleError_serves:
  "fallback h \<noteq> [] \<Longrightarrow> errors_Is err ErrNotExist \<or> errors_Is err ErrPermission \<Longrightarrow>
   fs h (fallback h) = Inr f \<Longrightarrow> Stat f = Inr fi \<Longrightarrow> IsRegular fi \<Longrightarrow>
   handleError h err =
     [FsOpen (fallback h) None, FileStat (fallback h) None,
      ServeContent (Name fi) (ModTime fi) (contents f), FileClose (fallback h)]"
  by (auto simp: handleError_def status_simps)

lemma opened_handleError:
  "opened (handleError h err) =
     (if fallback h \<noteq> [] \<and> (errors_Is err ErrNotExist \<or> errors_Is err ErrPermission)
      then [fallback h] else [])"
  by (auto simp: handleError_def split: sum.splits)

lemma ServeHTTP_unfold:
  "ServeHTTP h r =
     (if indexRedirect h \<and> HasSuffix (normalized r) ''/index.html'' then redirect r ''./''
      else if normalized r \<noteq> ''/'' \<and> HasSuffix (normalized r) ''/'' then
        CallHandleError ErrNotExist # handleError h ErrNotExist
      else
        case fs h (path_Clean (normalized r)) of
          Inl err \<Rightarrow>
            FsOpen (path_Clean (normalized r)) (Some err) # CallHandleError err # handleError h err
        | Inr f \<Rightarrow>
            FsOpen (path_Clean (normalized r)) None #
            (case Stat f of
               Inl err \<Rightarrow>
                 FileStat (path_Clean (normalized r)) (Some err) # CallHandleError err #
                 handleError h err
             | Inr fi \<Rightarrow>
                 FileStat (path_Clean (normalized r)) None #
                 (if \<not> IsRegular fi then
                    CallHandleError ErrNotExist # handleError h ErrNotExist
                  else [ServeContent (Name fi) (ModTime fi) (contents f)]))
            @ [FileClose (path_Clean (normalized r))])"
  unfolding ServeHTTP_def normalized_def Let_def ..

lemma ServeHTTP_lookup:
  assumes "\<not> (indexRedirect h \<and> HasSuffix (normalized r) ''/index.html'')"
  shows "ServeHTTP h r =
     (if normalized r \<noteq> ''/'' \<and> HasSuffix (normalized r) ''/'' then
        CallHandleError ErrNotExist # handleError h ErrNotExist
      else
        case fs h (path_Clean (normalized r)) of
          Inl err \<Rightarrow>
            FsOpen (path_Clean (normalized r)) (Some err) # CallHandleError err # handleError h err
        | Inr f \<Rightarrow>
            FsOpen (path_Clean (normalized r)) None #
            (case Stat f of
               Inl err \<Rightarrow>
                 FileStat (path_Clean (normalized r)) (Some err) # CallHandleError err #
                 handleError h err
             | Inr fi \<Rightarrow>
                 FileStat (path_Clean (normalized r)) None #
                 (if \<not> IsRegular fi then
                    CallHandleError ErrNotExist # handleError h ErrNotExist
                  else [ServeContent (Name fi) (ModTime fi) (contents f)]))
            @ [FileClose (path_Clean (normalized r))])"
  unfolding ServeHTTP_unfold using assms by (rule if_not_P)

lemma slash_not_index: "HasSuffix s ''/'' \<Longrightarrow> \<not> HasSuffix s ''/index.html''"
  by (auto simp: HasSuffix_iff)

lemma ServeHTTP_redirect:
  "indexRedirect h \<Longrightarrow> HasSuffix (normalized r) ''/index.html'' \<Longrightarrow>
   ServeHTTP h r = redirect r ''./''"
  by (auto simp: ServeHTTP_unfold)

lemma ServeHTTP_trailing_slash:
  "normalized r \<noteq> ''/'' \<Longrightarrow> HasSuffix (normalized r) ''/'' \<Longrightarrow>
   ServeHTTP h r = CallHandleError ErrNotExist # handleError h ErrNotExist"
  using slash_not_index [of "normalized r"] by (simp add: ServeHTTP_unfold)

lemma ServeHTTP_open_fails:
  "\<not> (indexRedirect h \<and> HasSuffix (normalized r) ''/index.html'') \<Longrightarrow>
   \<not> (normalized r \<noteq> ''/'' \<and> HasSuffix (normalized r) ''/'') \<Longrightarrow>
   fs h (path_Clean (normalized r)) = Inl e \<Longrightarrow>
   ServeHTTP h r = FsOpen (path_Clean (normalized r)) (Some e) # CallHandleError e # handleError h e"
  by (simp add: ServeHTTP_lookup)

lemma ServeHTTP_stat_fails:
  "\<not> (indexRedirect h \<and> HasSuffix (normalized r) ''/index.html'') \<Longrightarrow>
   \<not> (normalized r \<noteq> ''/'' \<and> HasSuffix (normalized r) ''/'') \<Longrightarrow>
   fs h (path_Clean (normalized r)) = Inr f \<Longrightarrow> Stat f = Inl e \<Longrightarrow>
   ServeHTTP h r =
     FsOpen (path_Clean (normalized r)) None # FileStat (path_Clean (normalized r)) (Some e) #
     CallHandleError e # handleError h e @ [FileClose (path_Clean (normalized r))]"
  by (simp add: ServeHTTP_lookup)

lemma ServeHTTP_not_regular:
  "\<not> (indexRedirect h \<and> HasSuffix (normalized r) ''/index.html'') \<Longrightarrow>
   \<not> (normalized r \<noteq> ''/'' \<and> HasSuffix (normalized r) ''/'') \<Longrightarrow>
   fs h (path_Clean (normalized r)) = Inr f \<Longrightarrow> Stat f = Inr fi \<Longrightarrow> \<not> IsRegular fi \<Longrightarrow>
   ServeHTTP h r =
     FsOpen (path_Clean (normalized r)) None # FileStat (path_Clean (normalized r)) None #
     CallHandleError ErrNotExist # handleError h ErrNotExist @ [FileClose (path_Clean (normalized r))]"
  by (simp add: ServeHTTP_lookup)

lemma ServeHTTP_hit:
  "\<not> (indexRedirect h \<and> HasSuffix (normalized r) ''/index.html'') \<Longrightarrow>
   \<not> (normalized r \<noteq> ''/'' \<and> HasSuffix (normalized r) ''/'') \<Longrightarrow>
   fs h (path_Clean (normalized r)) = Inr f \<Longrightarrow> Stat f = Inr fi \<Longrightarrow> IsRegular fi \<Longrightarrow>
   ServeHTTP h r =
     [FsOpen (path_Clean (normalized r)) None, FileStat (path_Clean (normalized r)) None,
      ServeContent (Name fi) (ModTime fi) (contents f), FileClose (path_Clean (normalized r))]"
  by (simp add: ServeHTTP_lookup)

lemma WriteHeader_notin_handleError: "WriteHeader c \<notin> set (handleError h err)"
  by (auto simp: handleError_def split: sum.splits)

lemma CallHandleError_notin_handleError: "CallHandleError e \<notin> set (handleError h err)"
  by (auto simp: handleError_def split: sum.splits)

lemma WriteHeader_in_redirect: "(WriteHeader c \<in> set (redirect r dst)) = (c = 301)"
  by (auto simp: redirect_def Let_def status_simps)

lemma WriteHeader_in_ServeHTTP:
  "(WriteHeader c \<in> set (ServeHTTP h r)) =
     (c = 301 \<and> indexRedirect h \<and> HasSuffix (normalized r) ''/index.html'')"
proof (cases "indexRedirect h \<and> HasSuffix (normalized r) ''/index.html''")
  case True
  then show ?thesis
    by (simp add: ServeHTTP_unfold WriteHeader_in_redirect)
next
  case False
  then have "WriteHeader c \<notin> set (ServeHTTP h r)"
    by (simp add: ServeHTTP_lookup WriteHeader_notin_handleError split: sum.splits)
  with False show ?thesis by blast
qed

lemma redirect_calls:
  "redirect r ''./'' = [SetHeader ''Location'' (location r), WriteHeader 301]"
  by (simp add: redirect_def Let_def status_simps)

lemma response_of_failed_lookup:
  assumes "CallHandleError e \<in> set (ServeHTTP h r)"
  shows "response_of sc r' (ServeHTTP h r) = response_of sc r' (handleError h e)"
proof (cases "indexRedirect h \<and> HasSuffix (normalized r) ''/index.html''")
  case True
  then show ?thesis
    using assms by (simp add: ServeHTTP_unfold redirect_def Let_def)
next
  case False
  show ?thesis
  proof (cases "normalized r \<noteq> ''/'' \<and> HasSuffix (normalized r) ''/''")
    case True
    then have run: "ServeHTTP h r = CallHandleError ErrNotExist # handleError h ErrNotExist"
      by (simp add: ServeHTTP_trailing_slash)
    then have "e = ErrNotExist"
      using assms CallHandleError_notin_handleError by simp
    then show ?thesis
      by (simp add: run response_of_def)
  next
    case lookup: False
    show ?thesis
    proof (cases "fs h (path_Clean (normalized r))")
      case (Inl e')
      note run = ServeHTTP_open_fails [OF False lookup Inl]
      then have "e = e'"
        using assms CallHandleError_notin_handleError by simp
      then show ?thesis
        by (simp add: run response_of_def)
    next
      case (Inr f)
      show ?thesis
      proof (cases "Stat f")
        case (Inl e')
        note run = ServeHTTP_stat_fails [OF False lookup Inr Inl]
        then have "e = e'"
          using assms CallHandleError_notin_handleError by simp
        then show ?thesis
          by (simp add: run response_of_def)
      next
        case stat: (Inr fi)
        show ?thesis
        proof (cases "IsRegular fi")
          case True
          note run = ServeHTTP_hit [OF False lookup Inr stat True]
          then show ?thesis
            using assms by simp
        next
          case not_regular: False
          note run = ServeHTTP_not_regular [OF False lookup Inr stat not_regular]
          then have "e = ErrNotExist"
            using assms CallHandleError_notin_handleError by simp
          then show ?thesis
            by (simp add: run response_of_def)
        qed
      qed
    qed
  qed
qed

section \<open>Error classification\<close>

text \<open>
  Claim C1. When a lookup has failed with error \<open>err\<close>, the fallback is opened if and
  only if the fallback path is not empty and \<open>err\<close> is a not-exist error or a
  permission error. In every other case the handler makes one call, \<open>http.Error\<close>
  with status 500, and the client receives status 500 with the generic text. The
  response to a request whose lookup failed with \<open>err\<close> is the response of
  \<open>handleError\<close> for \<open>err\<close>.
\<close>

theorem handleError_fallback_iff_eligible:
  "(fallback h \<in> set (opened (handleError h err))) =
     (fallback h \<noteq> [] \<and> (errors_Is err ErrNotExist \<or> errors_Is err ErrPermission))
   \<and> (\<not> (fallback h \<noteq> [] \<and> (errors_Is err ErrNotExist \<or> errors_Is err ErrPermission)) \<longrightarrow>
        handleError h err = [HttpError ''Internal Server Error'' 500]
        \<and> response_of sc r (handleError h err) =
            \<lparr>status = 500,
             header = [''Content-Type'' \<mapsto> ''text/plain; charset=utf-8'',
                       ''X-Content-Type-Options'' \<mapsto> ''nosniff''],
             body = ''Internal Server Error'' @ [CHR 0x0A]\<rparr>)
   \<and> (CallHandleError err \<in> set (ServeHTTP h r) \<longrightarrow>
        response_of sc r (ServeHTTP h r) = response_of sc r (handleError h err))"
proof -
  let ?ok = "fallback h \<noteq> [] \<and> (errors_Is err ErrNotExist \<or> errors_Is err ErrPermission)"
  have attempted: "(fallback h \<in> set (opened (handleError h err))) = ?ok"
    by (simp add: opened_handleError)
  have fatal: "handleError h err = [HttpError ''Internal Server Error'' 500]" if "\<not> ?ok"
    using that by (intro handleError_fatal) blast
  have reply: "response_of sc r (handleError h err) =
            \<lparr>status = 500,
             header = [''Content-Type'' \<mapsto> ''text/plain; charset=utf-8'',
                       ''X-Content-Type-Options'' \<mapsto> ''nosniff''],
             body = ''Internal Server Error'' @ [CHR 0x0A]\<rparr>" if "\<not> ?ok"
    by (simp add: fatal [OF that] response_of_def)
  have whole: "response_of sc r (ServeHTTP h r) = response_of sc r (handleError h err)"
    if "CallHandleError err \<in> set (ServeHTTP h r)"
    using that by (rule response_of_failed_lookup)
  show ?thesis
    using attempted fatal reply whole by (intro conjI impI)
qed

theorem handleError_fallback_iff_eligible_witness:
  "handleError (StaticHandler testFS []) (ErrOther ''input/output error'') =
     [HttpError ''Internal Server Error'' 500]
   \<and> status (response_of plainResponder (makeRequest ''GET'' ''/x'' [] [])
        (handleError (StaticHandler testFS []) (ErrOther ''input/output error''))) = 500
   \<and> handleError (StaticHandler testFS [Fallback []]) ErrNotExist =
     [HttpError ''Internal Server Error'' 500]
   \<and> ''/index.html'' \<in> set (opened (handleError (StaticHandler testFS []) ErrPermission))
   \<and> status (response_of plainResponder (makeRequest ''GET'' ''/missing'' [] [])
        (ServeHTTP (StaticHandler testFS [Fallback []]) (makeRequest ''GET'' ''/missing'' [] []))) =
       500"
proof -
  let ?h = "StaticHandler testFS []"
  let ?off = "StaticHandler testFS [Fallback []]"
  let ?io = "ErrOther ''input/output error''"
  let ?x = "makeRequest ''GET'' ''/x'' [] []"
  let ?m = "makeRequest ''GET'' ''/missing'' [] []"
  let ?e = "PathError ''open'' ''/missing'' ErrNotExist"
  let ?generic = "\<lparr>status = 500,
       header = [''Content-Type'' \<mapsto> ''text/plain; charset=utf-8'',
                 ''X-Content-Type-Options'' \<mapsto> ''nosniff''],
       body = ''Internal Server Error'' @ [CHR 0x0A]\<rparr>"
  have fb: "fallback ?h = ''/index.html''" "fallback ?off = []"
    and off: "indexRedirect ?off" "fs ?off = testFS"
    by (simp_all add: StaticHandler_def Fallback_def)
  have fatal: "\<not> (fallback ?h \<noteq> [] \<and> (errors_Is ?io ErrNotExist \<or> errors_Is ?io ErrPermission))"
    by simp
  have disabled: "\<not> (fallback ?off \<noteq> [] \<and> (errors_Is err ErrNotExist \<or> errors_Is err ErrPermission))"
    for err
    by (simp add: fb)
  have io: "handleError ?h ?io = [HttpError ''Internal Server Error'' 500]"
    using handleError_fallback_iff_eligible [of ?h ?io] fatal by blast
  have "response_of plainResponder ?x (handleError ?h ?io) = ?generic"
    using handleError_fallback_iff_eligible [of ?h ?io plainResponder ?x] fatal by blast
  then have reply: "status (response_of plainResponder ?x (handleError ?h ?io)) = 500"
    by simp
  have none: "handleError ?off ErrNotExist = [HttpError ''Internal Server Error'' 500]"
    using handleError_fallback_iff_eligible [of ?off ErrNotExist] disabled by blast
  have perm: "''/index.html'' \<in> set (opened (handleError ?h ErrPermission))"
    using handleError_fallback_iff_eligible [of ?h ErrPermission] by (simp add: fb)
  have n: "normalized ?m = ''/missing''"
    by (simp add: normalized_def makeRequest_def HasPrefix_def)
  have clean: "path_Clean ''/missing'' = ''/missing''"
    by code_simp
  have "ServeHTTP ?off ?m = [FsOpen ''/missing'' (Some ?e), CallHandleError ?e,
      HttpError ''Internal Server Error'' 500]"
    by (simp add: ServeHTTP_unfold n clean off fb HasSuffix_def testFS_def handleError_def
        status_simps)
  then have failed: "CallHandleError ?e \<in> set (ServeHTTP ?off ?m)"
    by simp
  have "response_of plainResponder ?m (ServeHTTP ?off ?m) =
      response_of plainResponder ?m (handleError ?off ?e)"
    using handleError_fallback_iff_eligible [of ?off ?e plainResponder ?m] failed by blast
  moreover have "response_of plainResponder ?m (handleError ?off ?e) = ?generic"
    using handleError_fallback_iff_eligible [of ?off ?e plainResponder ?m] disabled by blast
  ultimately have missing: "status (response_of plainResponder ?m (ServeHTTP ?off ?m)) = 500"
    by simp
  show ?thesis
    using io reply none perm missing by (intro conjI)
qed

section \<open>The index redirect\<close>

text \<open>
  Claim C2. The handler writes status 301 if and only if the index redirect is enabled
  and the normalized path ends with the literal \<open>/index.html\<close>. When it does, the run
  is exactly: set \<open>Location\<close> to \<open>./\<close>, then \<open>?\<close> and the query if the query is not
  empty, then \<open>#\<close> and the escaped fragment if that is not empty; write status 301.
  Nothing is opened and the body is empty. With the redirect disabled, the run for such
  a path starts by opening the cleaned path.
\<close>

theorem index_redirect_iff:
  "(WriteHeader 301 \<in> set (ServeHTTP h r)) =
     (indexRedirect h \<and> (\<exists>pre. normalized r = pre @ ''/index.html''))
   \<and> (indexRedirect h \<and> (\<exists>pre. normalized r = pre @ ''/index.html'') \<longrightarrow>
        ServeHTTP h r = [SetHeader ''Location'' (location r), WriteHeader 301]
        \<and> opened (ServeHTTP h r) = []
        \<and> response_of sc r (ServeHTTP h r) =
            \<lparr>status = 301, header = [''Location'' \<mapsto> location r], body = []\<rparr>)
   \<and> (\<not> indexRedirect h \<and> (\<exists>pre. normalized r = pre @ ''/index.html'') \<longrightarrow>
        (\<exists>e calls. ServeHTTP h r = FsOpen (path_Clean (normalized r)) e # calls))"
proof -
  let ?index = "\<exists>pre. normalized r = pre @ ''/index.html''"
  have suffix: "HasSuffix (normalized r) ''/index.html'' = ?index"
    by (rule HasSuffix_iff)
  have fires: "(WriteHeader 301 \<in> set (ServeHTTP h r)) = (indexRedirect h \<and> ?index)"
    unfolding suffix [symmetric] by (simp add: WriteHeader_in_ServeHTTP)
  have run: "ServeHTTP h r = [SetHeader ''Location'' (location r), WriteHeader 301]"
    if "indexRedirect h" ?index
    using that ServeHTTP_redirect [of h r] redirect_calls [of r] suffix by simp
  have through: "\<exists>e calls. ServeHTTP h r = FsOpen (path_Clean (normalized r)) e # calls"
    if "\<not> indexRedirect h" ?index
  proof -
    from that(2) have "HasSuffix (normalized r) ''/index.html''"
      using suffix by simp
    then have "\<not> HasSuffix (normalized r) ''/''"
      using slash_not_index by blast
    then show ?thesis
      using that(1) by (simp add: ServeHTTP_lookup split: sum.splits)
  qed
  have reply: "response_of sc r [SetHeader ''Location'' (location r), WriteHeader 301] =
      \<lparr>status = 301, header = [''Location'' \<mapsto> location r], body = []\<rparr>"
    by (simp add: response_of_def)
  show ?thesis
    using fires run through reply by (simp del: append.simps)
qed

theorem index_redirect_iff_witness:
  "ServeHTTP (StaticHandler testFS []) (makeRequest ''GET'' ''/index.html'' ''query'' ''fragment'') =
     [SetHeader ''Location'' ''./?query#fragment'', WriteHeader 301]
   \<and> response_of plainResponder (makeRequest ''GET'' ''/index.html'' ''query'' ''fragment'')
        (ServeHTTP (StaticHandler testFS []) (makeRequest ''GET'' ''/index.html'' ''query'' ''fragment'')) =
       \<lparr>status = 301, header = [''Location'' \<mapsto> ''./?query#fragment''], body = []\<rparr>
   \<and> WriteHeader 301 \<notin> set (ServeHTTP (StaticHandler testFS [])
        (makeRequest ''GET'' ''/INDEX.HTML'' ''query'' ''fragment''))
   \<and> (\<exists>e calls. ServeHTTP (StaticHandler testFS [NoIndexRedirect])
          (makeRequest ''GET'' ''/index.html'' ''query'' ''fragment'') =
        FsOpen ''/index.html'' e # calls)"
proof -
  let ?h = "StaticHandler testFS []"
  let ?r = "makeRequest ''GET'' ''/index.html'' ''query'' ''fragment''"
  let ?R = "makeRequest ''GET'' ''/INDEX.HTML'' ''query'' ''fragment''"
  have on: "indexRedirect ?h" "\<not> indexRedirect (StaticHandler testFS [NoIndexRedirect])"
    by (simp_all add: StaticHandler_def NoIndexRedirect_def)
  have n: "normalized ?r = ''/index.html''" "normalized ?R = ''/INDEX.HTML''"
    by (simp_all add: normalized_def makeRequest_def HasPrefix_def)
  have index: "\<exists>pre. normalized ?r = pre @ ''/index.html''"
    using n by simp
  have upper: "\<not> (\<exists>pre. normalized ?R = pre @ ''/index.html'')"
    unfolding HasSuffix_iff [symmetric] by (simp add: n HasSuffix_def)
  have loc: "location ?r = ''./?query#fragment''"
    by (simp add: makeRequest_def)
  have c: "path_Clean ''/index.html'' = ''/index.html''"
    by (simp add: path_Clean_def clean_loop.simps)
  have run: "ServeHTTP ?h ?r = [SetHeader ''Location'' ''./?query#fragment'', WriteHeader 301]"
    using index_redirect_iff [of ?h ?r] on(1) index unfolding loc by blast
  have reply: "response_of plainResponder ?r (ServeHTTP ?h ?r) =
       \<lparr>status = 301, header = [''Location'' \<mapsto> ''./?query#fragment''], body = []\<rparr>"
    using index_redirect_iff [of ?h ?r plainResponder] on(1) index unfolding loc by blast
  have no: "WriteHeader 301 \<notin> set (ServeHTTP ?h ?R)"
    using index_redirect_iff [of ?h ?R] upper by blast
  have "\<exists>e calls. ServeHTTP (StaticHandler testFS [NoIndexRedirect]) ?r =
        FsOpen (path_Clean (normalized ?r)) e # calls"
    using index_redirect_iff [of "StaticHandler testFS [NoIndexRedirect]" ?r] on(2) index by blast
  then have through: "\<exists>e calls. ServeHTTP (StaticHandler testFS [NoIndexRedirect]) ?r =
        FsOpen ''/index.html'' e # calls"
    by (simp add: n c)
  show ?thesis
    using run reply no through by blast
qed

section \<open>Trailing slashes\<close>

text \<open>
  Claim C3. When the normalized path is not \<open>/\<close> and ends with \<open>/\<close>, the redirect
  cannot fire, and the run is the entry into \<open>handleError\<close> with \<open>fs.ErrNotExist\<close>
  followed by the calls of \<open>handleError\<close>: the only name opened is the fallback path,
  never the request path. When the fallback is a regular file, the content responder
  is given that file and its answer is the response.
\<close>

theorem trailing_slash_goes_to_fallback:
  assumes "normalized r \<noteq> ''/''" and "\<exists>pre. normalized r = pre @ ''/''"
  shows "WriteHeader 301 \<notin> set (ServeHTTP h r)
    \<and> ServeHTTP h r = CallHandleError ErrNotExist # handleError h ErrNotExist
    \<and> opened (ServeHTTP h r) = (if fallback h = [] then [] else [fallback h])
    \<and> (\<forall>f fi. fallback h \<noteq> [] \<and> fs h (fallback h) = Inr f \<and> Stat f = Inr fi \<and> IsRegular fi \<longrightarrow>
          ServeHTTP h r =
            [CallHandleError ErrNotExist, FsOpen (fallback h) None, FileStat (fallback h) None,
             ServeContent (Name fi) (ModTime fi) (contents f), FileClose (fallback h)]
          \<and> response_of sc r (ServeHTTP h r) = sc r (Name fi) (ModTime fi) (contents f))"
proof -
  from assms(2) have slash: "HasSuffix (normalized r) ''/''"
    by (simp add: HasSuffix_iff)
  then have no_redirect: "WriteHeader 301 \<notin> set (ServeHTTP h r)"
    using slash_not_index by (simp add: WriteHeader_in_ServeHTTP)
  have run: "ServeHTTP h r = CallHandleError ErrNotExist # handleError h ErrNotExist"
    using assms(1) slash by (rule ServeHTTP_trailing_slash)
  have names: "opened (ServeHTTP h r) = (if fallback h = [] then [] else [fallback h])"
    by (simp add: run opened_handleError)
  have served: "ServeHTTP h r =
        [CallHandleError ErrNotExist, FsOpen (fallback h) None, FileStat (fallback h) None,
         ServeContent (Name fi) (ModTime fi) (contents f), FileClose (fallback h)]
      \<and> response_of sc r (ServeHTTP h r) = sc r (Name fi) (ModTime fi) (contents f)"
    if "fallback h \<noteq> []" "fs h (fallback h) = Inr f" "Stat f = Inr fi" "IsRegular fi" for f fi
    using handleError_serves [of h ErrNotExist f fi] that
    by (simp add: run response_of_def)
  show ?thesis
    using no_redirect run names served by blast
qed

theorem trailing_slash_goes_to_fallback_witness:
  "ServeHTTP (StaticHandler testFS []) (makeRequest ''GET'' ''/dir/'' [] []) =
     [CallHandleError ErrNotExist, FsOpen ''/index.html'' None, FileStat ''/index.html'' None,
      ServeContent ''index.html'' 2 ''<html>index</html>'', FileClose ''/index.html'']
   \<and> response_of plainResponder (makeRequest ''GET'' ''/dir/'' [] [])
        (ServeHTTP (StaticHandler testFS []) (makeRequest ''GET'' ''/dir/'' [] [])) =
       \<lparr>status = 200, header = Map.empty, body = ''<html>index</html>''\<rparr>
   \<and> opened (ServeHTTP (StaticHandler testFS []) (makeRequest ''GET'' ''/dir/'' [] [])) =
       [''/index.html'']"
proof -
  let ?h = "StaticHandler testFS []"
  let ?r = "makeRequest ''GET'' ''/dir/'' [] []"
  let ?f = "regular_file ''index.html'' 2 ''<html>index</html>''"
  let ?fi = "\<lparr>Name = ''index.html'', ModTime = 2, IsRegular = True\<rparr>"
  have n: "normalized ?r = ''/dir/''"
    by (simp add: normalized_def makeRequest_def HasPrefix_def)
  have not_root: "normalized ?r \<noteq> ''/''"
    by (simp add: n)
  have slash: "\<exists>pre. normalized ?r = pre @ ''/''"
    unfolding HasSuffix_iff [symmetric] by (simp add: n HasSuffix_def)
  have fb: "fallback ?h = ''/index.html''" "fs ?h = testFS"
    by (simp_all add: StaticHandler_def)
  have valid: "fallback ?h \<noteq> [] \<and> fs ?h (fallback ?h) = Inr ?f \<and> Stat ?f = Inr ?fi \<and> IsRegular ?fi"
    by (simp add: fb testFS_def regular_file_def)
  note claim = trailing_slash_goes_to_fallback [OF not_root slash, of ?h plainResponder]
  have run: "ServeHTTP ?h ?r =
      [CallHandleError ErrNotExist, FsOpen (fallback ?h) None, FileStat (fallback ?h) None,
       ServeContent (Name ?fi) (ModTime ?fi) (contents ?f), FileClose (fallback ?h)]"
    using claim valid by blast
  have reply: "response_of plainResponder ?r (ServeHTTP ?h ?r) =
      plainResponder ?r (Name ?fi) (ModTime ?fi) (contents ?f)"
    using claim valid by blast
  have names: "opened (ServeHTTP ?h ?r) = (if fallback ?h = [] then [] else [fallback ?h])"
    using claim by blast
  have 1: "ServeHTTP ?h ?r =
     [CallHandleError ErrNotExist, FsOpen ''/index.html'' None, FileStat ''/index.html'' None,
      ServeContent ''index.html'' 2 ''<html>index</html>'', FileClose ''/index.html'']"
    using run by (simp add: fb regular_file_def)
  have 2: "response_of plainResponder ?r (ServeHTTP ?h ?r) =
       \<lparr>status = 200, header = Map.empty, body = ''<html>index</html>''\<rparr>"
    unfolding reply by (simp add: plainResponder_def regular_file_def)
  have 3: "opened (ServeHTTP ?h ?r) = [''/index.html'']"
    unfolding names by (simp add: fb)
  show ?thesis
    using 1 2 3 by blast
qed

section \<open>The fallback lookup\<close>

text \<open>
  Claim C5. Let the fallback path be non-empty and the lookup error a not-exist or
  permission error. If opening the fallback fails, or its \<open>Stat\<close> fails, or it is not a
  regular file, the run ends with \<open>http.Error\<close> 500 and the response is the generic
  500; \<open>handleError\<close> is never entered again and nothing but the fallback path is
  opened. If the fallback is a regular file, the run is open, stat,
  \<open>http.ServeContent\<close> on that file, close: the response is the content responder's,
  and the run is the very run of a request that finds this file in the main lookup.
\<close>

theorem fallback_lookup_outcomes:
  assumes "fallback h \<noteq> []" and "errors_Is err ErrNotExist \<or> errors_Is err ErrPermission"
  shows "(\<forall>e. fs h (fallback h) = Inl e \<longrightarrow>
            handleError h err =
              [FsOpen (fallback h) (Some e), HttpError ''Internal Server Error'' 500])
    \<and> (\<forall>f e. fs h (fallback h) = Inr f \<and> Stat f = Inl e \<longrightarrow>
            handleError h err =
              [FsOpen (fallback h) None, FileStat (fallback h) (Some e),
               HttpError ''Internal Server Error'' 500, FileClose (fallback h)])
    \<and> (\<forall>f fi. fs h (fallback h) = Inr f \<and> Stat f = Inr fi \<and> \<not> IsRegular fi \<longrightarrow>
            handleError h err =
              [FsOpen (fallback h) None, FileStat (fallback h) None,
               HttpError ''Internal Server Error'' 500, FileClose (fallback h)])
    \<and> (\<forall>f fi. fs h (fallback h) = Inr f \<and> Stat f = Inr fi \<and> IsRegular fi \<longrightarrow>
            handleError h err =
              [FsOpen (fallback h) None, FileStat (fallback h) None,
               ServeContent (Name fi) (ModTime fi) (contents f), FileClose (fallback h)]
            \<and> response_of sc r (handleError h err) = sc r (Name fi) (ModTime fi) (contents f)
            \<and> (\<forall>r'. \<not> (indexRedirect h \<and> HasSuffix (normalized r') ''/index.html'')
                  \<and> \<not> (normalized r' \<noteq> ''/'' \<and> HasSuffix (normalized r') ''/'')
                  \<and> path_Clean (normalized r') = fallback h \<longrightarrow>
                  ServeHTTP h r' = handleError h err))
    \<and> ((\<forall>f fi. fs h (fallback h) = Inr f \<and> Stat f = Inr fi \<longrightarrow> \<not> IsRegular fi) \<longrightarrow>
          response_of sc r (handleError h err) =
            \<lparr>status = 500,
             header = [''Content-Type'' \<mapsto> ''text/plain; charset=utf-8'',
                       ''X-Content-Type-Options'' \<mapsto> ''nosniff''],
             body = ''Internal Server Error'' @ [CHR 0x0A]\<rparr>)
    \<and> opened (handleError h err) = [fallback h]
    \<and> (\<forall>e. CallHandleError e \<notin> set (handleError h err))"
proof -
  note ok = assms
  have open_fails: "handleError h err =
      [FsOpen (fallback h) (Some e), HttpError ''Internal Server Error'' 500]"
    if "fs h (fallback h) = Inl e" for e
    using ok that by (rule handleError_open_fails)
  have stat_fails: "handleError h err =
      [FsOpen (fallback h) None, FileStat (fallback h) (Some e),
       HttpError ''Internal Server Error'' 500, FileClose (fallback h)]"
    if "fs h (fallback h) = Inr f \<and> Stat f = Inl e" for f e
    using handleError_stat_fails [OF ok] that by blast
  have not_regular: "handleError h err =
      [FsOpen (fallback h) None, FileStat (fallback h) None,
       HttpError ''Internal Server Error'' 500, FileClose (fallback h)]"
    if "fs h (fallback h) = Inr f \<and> Stat f = Inr fi \<and> \<not> IsRegular fi" for f fi
    using handleError_not_regular [OF ok] that by blast
  have serves: "handleError h err =
      [FsOpen (fallback h) None, FileStat (fallback h) None,
       ServeContent (Name fi) (ModTime fi) (contents f), FileClose (fallback h)]"
    if "fs h (fallback h) = Inr f \<and> Stat f = Inr fi \<and> IsRegular fi" for f fi
    using handleError_serves [OF ok] that by blast
  have reply: "response_of sc r (handleError h err) = sc r (Name fi) (ModTime fi) (contents f)"
    if "fs h (fallback h) = Inr f \<and> Stat f = Inr fi \<and> IsRegular fi" for f fi
    by (simp add: serves [OF that] response_of_def)
  have as_hit: "ServeHTTP h r' = handleError h err"
    if valid: "fs h (fallback h) = Inr f \<and> Stat f = Inr fi \<and> IsRegular fi"
      and r': "\<not> (indexRedirect h \<and> HasSuffix (normalized r') ''/index.html'')
        \<and> \<not> (normalized r' \<noteq> ''/'' \<and> HasSuffix (normalized r') ''/'')
        \<and> path_Clean (normalized r') = fallback h" for f fi r'
  proof -
    from r' have p: "path_Clean (normalized r') = fallback h" by blast
    have "ServeHTTP h r' =
        [FsOpen (path_Clean (normalized r')) None, FileStat (path_Clean (normalized r')) None,
         ServeContent (Name fi) (ModTime fi) (contents f), FileClose (path_Clean (normalized r'))]"
      using r' valid by (intro ServeHTTP_hit) (simp_all add: p)
    then show ?thesis
      by (simp add: serves [OF valid] p)
  qed
  have failure: "response_of sc r (handleError h err) =
        \<lparr>status = 500,
         header = [''Content-Type'' \<mapsto> ''text/plain; charset=utf-8'',
                   ''X-Content-Type-Options'' \<mapsto> ''nosniff''],
         body = ''Internal Server Error'' @ [CHR 0x0A]\<rparr>"
    if invalid: "\<forall>f fi. fs h (fallback h) = Inr f \<and> Stat f = Inr fi \<longrightarrow> \<not> IsRegular fi"
  proof (cases "fs h (fallback h)")
    case (Inl e)
    then show ?thesis
      by (simp add: open_fails response_of_def)
  next
    case (Inr f)
    show ?thesis
    proof (cases "Stat f")
      case (Inl e)
      with Inr show ?thesis
        by (simp add: stat_fails [of f e] response_of_def)
    next
      case (Inr fi)
      with \<open>fs h (fallback h) = Inr f\<close> invalid have "\<not> IsRegular fi" by blast
      with Inr \<open>fs h (fallback h) = Inr f\<close> show ?thesis
        by (simp add: not_regular [of f fi] response_of_def)
    qed
  qed
  have names: "opened (handleError h err) = [fallback h]"
    using ok by (simp add: opened_handleError)
  have single: "\<forall>e. CallHandleError e \<notin> set (handleError h err)"
    by (simp add: CallHandleError_notin_handleError)
  show ?thesis
    using open_fails stat_fails not_regular serves reply as_hit failure names single
    by (intro conjI allI impI) blast+
qed

theorem fallback_lookup_outcomes_witness:
  "handleError (StaticHandler testFS [Fallback ''/test.css'']) ErrNotExist =
     [FsOpen ''/test.css'' None, FileStat ''/test.css'' None,
      ServeContent ''test.css'' 3 ''body {}'', FileClose ''/test.css'']
   \<and> response_of plainResponder (makeRequest ''GET'' ''/missing'' [] [])
        (handleError (StaticHandler testFS [Fallback ''/test.css'']) ErrNotExist) =
       \<lparr>status = 200, header = Map.empty, body = ''body {}''\<rparr>
   \<and> ServeHTTP (StaticHandler testFS [Fallback ''/test.css''])
        (makeRequest ''GET'' ''/test.css'' [] []) =
       handleError (StaticHandler testFS [Fallback ''/test.css'']) ErrNotExist
   \<and> status (response_of plainResponder (makeRequest ''GET'' ''/missing'' [] [])
        (handleError (StaticHandler testFS [Fallback ''/dir'']) ErrPermission)) = 500
   \<and> handleError (StaticHandler testFS [Fallback ''/nope'']) ErrNotExist =
       [FsOpen ''/nope'' (Some (PathError ''open'' ''/nope'' ErrNotExist)),
        HttpError ''Internal Server Error'' 500]"
proof -
  let ?h = "StaticHandler testFS [Fallback ''/test.css'']"
  let ?d = "StaticHandler testFS [Fallback ''/dir'']"
  let ?n = "StaticHandler testFS [Fallback ''/nope'']"
  let ?r = "makeRequest ''GET'' ''/missing'' [] []"
  let ?r' = "makeRequest ''GET'' ''/test.css'' [] []"
  let ?f = "regular_file ''test.css'' 3 ''body {}''"
  let ?fi = "\<lparr>Name = ''test.css'', ModTime = 3, IsRegular = True\<rparr>"
  have h: "fallback ?h = ''/test.css''" "fs ?h = testFS" "indexRedirect ?h"
    and d: "fallback ?d = ''/dir''" "fs ?d = testFS"
    and n: "fallback ?n = ''/nope''" "fs ?n = testFS"
    by (simp_all add: StaticHandler_def Fallback_def)
  have valid: "fs ?h (fallback ?h) = Inr ?f \<and> Stat ?f = Inr ?fi \<and> IsRegular ?fi"
    by (simp add: h testFS_def regular_file_def)
  have norm: "normalized ?r' = ''/test.css''"
    by (simp add: normalized_def makeRequest_def HasPrefix_def)
  have clean: "path_Clean ''/test.css'' = ''/test.css''"
    by (simp add: path_Clean_def clean_loop.simps)
  have hit: "\<not> (indexRedirect ?h \<and> HasSuffix (normalized ?r') ''/index.html'')
      \<and> \<not> (normalized ?r' \<noteq> ''/'' \<and> HasSuffix (normalized ?r') ''/'')
      \<and> path_Clean (normalized ?r') = fallback ?h"
    by (simp add: norm clean h HasSuffix_def)
  have ne: "fallback ?h \<noteq> []" "fallback ?d \<noteq> []" "fallback ?n \<noteq> []"
    by (simp_all add: h d n)
  have el: "errors_Is ErrNotExist ErrNotExist \<or> errors_Is ErrNotExist ErrPermission"
    "errors_Is ErrPermission ErrNotExist \<or> errors_Is ErrPermission ErrPermission"
    by simp_all
  note served = fallback_lookup_outcomes [OF ne(1) el(1), of plainResponder ?r, THEN conjunct2, THEN conjunct2,
      THEN conjunct2, THEN conjunct1, rule_format, OF valid]
  have 1: "handleError ?h ErrNotExist =
      [FsOpen (fallback ?h) None, FileStat (fallback ?h) None,
       ServeContent (Name ?fi) (ModTime ?fi) (contents ?f), FileClose (fallback ?h)]"
    using served by (rule conjunct1)
  have 2: "response_of plainResponder ?r (handleError ?h ErrNotExist) =
      plainResponder ?r (Name ?fi) (ModTime ?fi) (contents ?f)"
    using served [THEN conjunct2] by (rule conjunct1)
  have 3: "ServeHTTP ?h ?r' = handleError ?h ErrNotExist"
    using served [THEN conjunct2, THEN conjunct2, rule_format, OF hit] .
  have "\<forall>f fi. fs ?d (fallback ?d) = Inr f \<and> Stat f = Inr fi \<longrightarrow> \<not> IsRegular fi"
    by (auto simp: d testFS_def directory_def)
  then have "response_of plainResponder ?r (handleError ?d ErrPermission) =
      \<lparr>status = 500,
       header = [''Content-Type'' \<mapsto> ''text/plain; charset=utf-8'',
                 ''X-Content-Type-Options'' \<mapsto> ''nosniff''],
       body = ''Internal Server Error'' @ [CHR 0x0A]\<rparr>"
    by (rule fallback_lookup_outcomes [OF ne(2) el(2), of plainResponder ?r, THEN conjunct2, THEN conjunct2,
      THEN conjunct2, THEN conjunct2, THEN conjunct1, THEN mp])
  then have 4: "status (response_of plainResponder ?r (handleError ?d ErrPermission)) = 500"
    by simp
  have "fs ?n (fallback ?n) = Inl (PathError ''open'' ''/nope'' ErrNotExist)"
    by (simp add: n testFS_def)
  then have 5: "handleError ?n ErrNotExist =
      [FsOpen (fallback ?n) (Some (PathError ''open'' ''/nope'' ErrNotExist)),
       HttpError ''Internal Server Error'' 500]"
    by (rule fallback_lookup_outcomes [OF ne(3) el(1), THEN conjunct1, rule_format])
  have run: "handleError ?h ErrNotExist =
     [FsOpen ''/test.css'' None, FileStat ''/test.css'' None,
      ServeContent ''test.css'' 3 ''body {}'', FileClose ''/test.css'']"
    unfolding 1 by (simp add: h(1) regular_file_def)
  have reply: "response_of plainResponder ?r (handleError ?h ErrNotExist) =
       \<lparr>status = 200, header = Map.empty, body = ''body {}''\<rparr>"
    unfolding 2 by (simp add: regular_file_def plainResponder_def)
  have missing: "handleError ?n ErrNotExist =
       [FsOpen ''/nope'' (Some (PathError ''open'' ''/nope'' ErrNotExist)),
        HttpError ''Internal Server Error'' 500]"
    unfolding 5 by (simp add: n(1))
  show ?thesis
    using run reply 3 4 missing by blast
qed

text \<open>
  Claim C10. The name given to \<open>Open\<close> in the fallback lookup is the fallback string
  exactly as configured by \<open>Fallback\<close>: no leading slash is added and
  \<open>path.Clean\<close> is not applied to it.
\<close>

theorem fallback_opened_as_configured:
  "fallback (StaticHandler fsys [Fallback f]) = f
   \<and> opened (handleError (StaticHandler fsys [Fallback f]) err) =
       (if f \<noteq> [] \<and> (errors_Is err ErrNotExist \<or> errors_Is err ErrPermission) then [f] else [])
   \<and> opened (handleError h err) =
       (if fallback h \<noteq> [] \<and> (errors_Is err ErrNotExist \<or> errors_Is err ErrPermission)
        then [fallback h] else [])"
  by (simp add: opened_handleError StaticHandler_def Fallback_def)

theorem fallback_opened_as_configured_witness:
  "opened (handleError (StaticHandler testFS [Fallback ''dir/../index.html'']) ErrNotExist) =
     [''dir/../index.html'']
   \<and> path_Clean (''/'' @ ''dir/../index.html'') = ''/index.html''
   \<and> handleError (StaticHandler testFS [Fallback ''dir/../index.html'']) ErrNotExist =
     [FsOpen ''dir/../index.html'' (Some (PathError ''open'' ''dir/../index.html'' ErrNotExist)),
      HttpError ''Internal Server Error'' 500]"
proof -
  let ?h = "StaticHandler testFS [Fallback ''dir/../index.html'']"
  have 1: "opened (handleError ?h ErrNotExist) = [''dir/../index.html'']"
    using fallback_opened_as_configured [of testFS "''dir/../index.html''" ErrNotExist] by simp
  have 2: "path_Clean (''/'' @ ''dir/../index.html'') = ''/index.html''"
    by code_simp
  have h: "fallback ?h = ''dir/../index.html''" "fs ?h = testFS"
    by (simp_all add: StaticHandler_def Fallback_def)
  have "fs ?h (fallback ?h) = Inl (PathError ''open'' ''dir/../index.html'' ErrNotExist)"
    by (simp add: h testFS_def)
  then have 3: "handleError ?h ErrNotExist =
     [FsOpen ''dir/../index.html'' (Some (PathError ''open'' ''dir/../index.html'' ErrNotExist)),
      HttpError ''Internal Server Error'' 500]"
    using handleError_open_fails [of ?h ErrNotExist] by (simp add: h(1))
  show ?thesis
    using 1 2 3 by blast
qed

section \<open>What a run depends on\<close>












section \<open>A custom fallback\<close>

lemma path_Clean_root: "path_Clean ''/'' = ''/''"
  by (simp add: path_Clean_def clean_loop.simps)

text \<open>
  Claim C7. With the handler built by \<open>StaticHandler fsys [Fallback "/dir/test.js"]\<close>,
  a request for \<open>/\<close>, where \<open>/\<close> is no regular file (it cannot be opened or its
  \<open>Stat\<close> fails, in both cases with a not-exist or permission error, or it is not
  regular) and \<open>/dir/test.js\<close> is a regular file: the run starts by opening \<open>/\<close>
  (the trailing-slash rule does not reject it), then opens \<open>/dir/test.js\<close> and nothing
  else, hands that file to the content responder, and the response is the responder's
  answer for that file. The default \<open>/index.html\<close> is not opened.
\<close>

theorem custom_fallback_serves_root:
  assumes req: "Path r = ''/''"
    and root: "case fsys ''/'' of
                 Inl e \<Rightarrow> errors_Is e ErrNotExist \<or> errors_Is e ErrPermission
               | Inr d \<Rightarrow>
                   (case Stat d of
                      Inl e \<Rightarrow> errors_Is e ErrNotExist \<or> errors_Is e ErrPermission
                    | Inr di \<Rightarrow> \<not> IsRegular di)"
    and target: "fsys ''/dir/test.js'' = Inr f" "Stat f = Inr fi" "IsRegular fi"
  shows "fallback (StaticHandler fsys [Fallback ''/dir/test.js'']) = ''/dir/test.js''
    \<and> (\<exists>e calls. ServeHTTP (StaticHandler fsys [Fallback ''/dir/test.js'']) r =
          FsOpen ''/'' e # calls)
    \<and> opened (ServeHTTP (StaticHandler fsys [Fallback ''/dir/test.js'']) r) =
          [''/'', ''/dir/test.js'']
    \<and> ServeContent (Name fi) (ModTime fi) (contents f)
          \<in> set (ServeHTTP (StaticHandler fsys [Fallback ''/dir/test.js'']) r)
    \<and> response_of sc r (ServeHTTP (StaticHandler fsys [Fallback ''/dir/test.js'']) r) =
          sc r (Name fi) (ModTime fi) (contents f)"
proof -
  let ?h = "StaticHandler fsys [Fallback ''/dir/test.js'']"
  have h: "fallback ?h = ''/dir/test.js''" "fs ?h = fsys" "indexRedirect ?h"
    by (simp_all add: StaticHandler_def Fallback_def)
  have n: "normalized r = ''/''"
    by (simp add: normalized_def req HasPrefix_def)
  have no_redirect: "\<not> (indexRedirect ?h \<and> HasSuffix (normalized r) ''/index.html'')"
    by (simp add: n HasSuffix_def)
  have no_slash: "\<not> (normalized r \<noteq> ''/'' \<and> HasSuffix (normalized r) ''/'')"
    by (simp add: n)
  have p: "path_Clean (normalized r) = ''/''"
    by (simp add: n path_Clean_root)
  have fb: "handleError ?h err =
      [FsOpen ''/dir/test.js'' None, FileStat ''/dir/test.js'' None,
       ServeContent (Name fi) (ModTime fi) (contents f), FileClose ''/dir/test.js'']"
    if "errors_Is err ErrNotExist \<or> errors_Is err ErrPermission" for err
    using handleError_serves [of ?h err f fi] that target by (simp add: h)
  have run: "(\<exists>e calls. ServeHTTP ?h r = FsOpen ''/'' e # calls)
      \<and> opened (ServeHTTP ?h r) = [''/'', ''/dir/test.js'']
      \<and> ServeContent (Name fi) (ModTime fi) (contents f) \<in> set (ServeHTTP ?h r)
      \<and> response_of sc r (ServeHTTP ?h r) = sc r (Name fi) (ModTime fi) (contents f)"
  proof (cases "fsys ''/''")
    case (Inl e)
    then have "fs ?h (path_Clean (normalized r)) = Inl e"
      by (simp add: h p)
    note calls = ServeHTTP_open_fails [OF no_redirect no_slash this]
    from Inl root have "errors_Is e ErrNotExist \<or> errors_Is e ErrPermission"
      by simp
    from fb [OF this] show ?thesis
      by (simp add: calls p response_of_def)
  next
    case (Inr d)
    then have opn: "fs ?h (path_Clean (normalized r)) = Inr d"
      by (simp add: h p)
    show ?thesis
    proof (cases "Stat d")
      case (Inl e)
      note calls = ServeHTTP_stat_fails [OF no_redirect no_slash opn Inl]
      from Inl Inr root have "errors_Is e ErrNotExist \<or> errors_Is e ErrPermission"
        by simp
      from fb [OF this] show ?thesis
        by (simp add: calls p response_of_def)
    next
      case (Inr di)
      with \<open>fsys ''/'' = Inr d\<close> root have "\<not> IsRegular di"
        by simp
      note calls = ServeHTTP_not_regular [OF no_redirect no_slash opn Inr this]
      have "errors_Is ErrNotExist ErrNotExist \<or> errors_Is ErrNotExist ErrPermission"
        by simp
      from fb [OF this] show ?thesis
        by (simp add: calls p response_of_def)
    qed
  qed
  with h(1) show ?thesis
    by (intro conjI) blast+
qed

theorem custom_fallback_serves_root_witness:
  "ServeHTTP (StaticHandler testFS [Fallback ''/dir/test.js'']) (makeRequest ''GET'' ''/'' [] []) =
     [FsOpen ''/'' None, FileStat ''/'' None, CallHandleError ErrNotExist,
      FsOpen ''/dir/test.js'' None, FileStat ''/dir/test.js'' None,
      ServeContent ''test.js'' 5 ''void 0;'', FileClose ''/dir/test.js'', FileClose ''/'']
   \<and> response_of plainResponder (makeRequest ''GET'' ''/'' [] [])
        (ServeHTTP (StaticHandler testFS [Fallback ''/dir/test.js''])
          (makeRequest ''GET'' ''/'' [] [])) =
       \<lparr>status = 200, header = Map.empty, body = ''void 0;''\<rparr>
   \<and> opened (ServeHTTP (StaticHandler testFS [Fallback ''/dir/test.js''])
        (makeRequest ''GET'' ''/'' [] [])) = [''/'', ''/dir/test.js'']"
proof -
  let ?h = "StaticHandler testFS [Fallback ''/dir/test.js'']"
  let ?r = "makeRequest ''GET'' ''/'' [] []"
  let ?f = "regular_file ''test.js'' 5 ''void 0;''"
  let ?fi = "\<lparr>Name = ''test.js'', ModTime = 5, IsRegular = True\<rparr>"
  have req: "Path ?r = ''/''"
    by (simp add: makeRequest_def)
  have root: "case testFS ''/'' of
                 Inl e \<Rightarrow> errors_Is e ErrNotExist \<or> errors_Is e ErrPermission
               | Inr d \<Rightarrow>
                   (case Stat d of
                      Inl e \<Rightarrow> errors_Is e ErrNotExist \<or> errors_Is e ErrPermission
                    | Inr di \<Rightarrow> \<not> IsRegular di)"
    by (simp add: testFS_def directory_def)
  have target: "testFS ''/dir/test.js'' = Inr ?f" "Stat ?f = Inr ?fi" "IsRegular ?fi"
    by (simp_all add: testFS_def regular_file_def)
  note claim = custom_fallback_serves_root [OF req root target, of plainResponder]
  have "response_of plainResponder ?r (ServeHTTP ?h ?r) =
      plainResponder ?r (Name ?fi) (ModTime ?fi) (contents ?f)"
    using claim by (elim conjE)
  then have reply: "response_of plainResponder ?r (ServeHTTP ?h ?r) =
      \<lparr>status = 200, header = Map.empty, body = ''void 0;''\<rparr>"
    by (simp add: plainResponder_def regular_file_def)
  have names: "opened (ServeHTTP ?h ?r) = [''/'', ''/dir/test.js'']"
    using claim by (elim conjE)
  have h: "fallback ?h = ''/dir/test.js''" "fs ?h = testFS" "indexRedirect ?h"
    by (simp_all add: StaticHandler_def Fallback_def)
  have n: "normalized ?r = ''/''"
    by (simp add: normalized_def makeRequest_def HasPrefix_def)
  have run: "ServeHTTP ?h ?r =
     [FsOpen ''/'' None, FileStat ''/'' None, CallHandleError ErrNotExist,
      FsOpen ''/dir/test.js'' None, FileStat ''/dir/test.js'' None,
      ServeContent ''test.js'' 5 ''void 0;'', FileClose ''/dir/test.js'', FileClose ''/'']"
    by (simp add: ServeHTTP_unfold n h path_Clean_root HasSuffix_def testFS_def directory_def
        regular_file_def handleError_def status_simps)
  show ?thesis
    using run reply names by (intro conjI)
qed

section \<open>Cleaning a rooted path\<close>

lemma backtrack_segment:
  "CHR ''/'' \<notin> set c \<Longrightarrow>
   backtrack (pre @ CHR ''/'' # c @ suf) dd (length pre + length c) =
     (if length pre + length c \<le> dd then length pre + length c else max dd (length pre))"
proof (induction c arbitrary: suf rule: rev_induct)
  case Nil
  then show ?case
    by (subst backtrack.simps) (simp add: nth_append)
next
  case (snoc x c)
  have at: "(pre @ CHR ''/'' # (c @ [x]) @ suf) ! (length pre + length (c @ [x])) = x"
    by (simp add: nth_append)
  have same: "pre @ CHR ''/'' # (c @ [x]) @ suf = pre @ CHR ''/'' # c @ (x # suf)"
    by simp
  from snoc.prems have x: "x \<noteq> CHR ''/''" and c: "CHR ''/'' \<notin> set c"
    by auto
  show ?case
  proof (cases "length pre + length (c @ [x]) \<le> dd")
    case True
    then show ?thesis
      by (subst backtrack.simps) simp
  next
    case False
    then have "backtrack (pre @ CHR ''/'' # (c @ [x]) @ suf) dd (length pre + length (c @ [x])) =
        backtrack (pre @ CHR ''/'' # c @ (x # suf)) dd (length pre + length c)"
      using x at by (subst backtrack.simps) (simp del: append_assoc add: same)
    also have "\<dots> = (if length pre + length c \<le> dd then length pre + length c
        else max dd (length pre))"
      using snoc.IH [OF c] .
    finally show ?thesis
      using False by auto
  qed
qed

lemma length_rooted_path: "\<forall>c\<in>set cs. element c \<Longrightarrow> (1 < length (rooted_path cs)) = (cs \<noteq> [])"
proof (cases cs)
  case Nil
  then show ?thesis by (simp add: rooted_path_def)
next
  case (Cons c cs')
  assume "\<forall>c\<in>set cs. element c"
  with Cons have "c \<noteq> []" by (simp add: element_def)
  then have "1 < length (CHR ''/'' # c)" by (cases c) simp_all
  with Cons show ?thesis by (simp add: rooted_path_def)
qed

lemma rooted_path_snoc:
  "rooted_path (cs @ [c]) = (if cs = [] then [] else rooted_path cs) @ CHR ''/'' # c"
  by (simp add: rooted_path_def)

lemma pop_element:
  assumes "\<forall>c\<in>set cs. element c" and "cs \<noteq> []"
  shows "take (backtrack (rooted_path cs) 1 (length (rooted_path cs) - 1)) (rooted_path cs) =
         rooted_path (butlast cs)"
proof -
  from assms(2) obtain cs' c where cs: "cs = cs' @ [c]"
    by (metis append_butlast_last_id)
  with assms(1) have c: "c \<noteq> []" "CHR ''/'' \<notin> set c" and cs': "\<forall>c\<in>set cs'. element c"
    by (auto simp: element_def)
  define pre where "pre = (if cs' = [] then [] else rooted_path cs')"
  have out: "rooted_path cs = pre @ CHR ''/'' # c @ []"
    by (simp add: cs rooted_path_snoc pre_def)
  have w: "length (rooted_path cs) - 1 = length pre + length c"
    by (simp add: out)
  have "backtrack (rooted_path cs) 1 (length (rooted_path cs) - 1) =
      (if length pre + length c \<le> 1 then length pre + length c else max 1 (length pre))"
    unfolding w unfolding out using c(2) by (rule backtrack_segment)
  also have "\<dots> = max 1 (length pre)"
    using c(1) by (cases c) (auto simp: max_def)
  finally have b: "backtrack (rooted_path cs) 1 (length (rooted_path cs) - 1) = max 1 (length pre)" .
  show ?thesis
  proof (cases "cs' = []")
    case True
    then have "pre = []" by (simp add: pre_def)
    then have bl: "backtrack (rooted_path cs) 1 (length (rooted_path cs) - 1) = 1"
      using b by simp
    have "take (backtrack (rooted_path cs) 1 (length (rooted_path cs) - 1)) (rooted_path cs) =
        take 1 (rooted_path cs)"
      by (simp only: bl)
    also have "\<dots> = rooted_path (butlast cs)"
      using True by (simp add: cs rooted_path_def)
    finally show ?thesis .
  next
    case False
    then have "1 < length pre"
      using length_rooted_path [OF cs'] by (simp add: pre_def)
    then have bl: "backtrack (rooted_path cs) 1 (length (rooted_path cs) - 1) = length pre"
      using b by simp
    have "take (backtrack (rooted_path cs) 1 (length (rooted_path cs) - 1)) (rooted_path cs) =
        take (length pre) (rooted_path cs)"
      by (simp only: bl)
    also have "\<dots> = pre"
      by (simp add: out)
    also have "\<dots> = rooted_path (butlast cs)"
      using False by (simp add: cs pre_def)
    finally show ?thesis .
  qed
qed

lemma push_element:
  assumes "\<forall>c\<in>set cs. element c"
  shows "(if length (rooted_path cs) \<noteq> 1 then rooted_path cs @ ''/'' else rooted_path cs) @ e =
         rooted_path (cs @ [e])"
proof (cases "cs = []")
  case True
  then show ?thesis by (simp add: rooted_path_def)
next
  case False
  then have "length (rooted_path cs) \<noteq> 1"
    using length_rooted_path [OF assms] by simp
  then show ?thesis
    using False by (simp add: rooted_path_snoc)
qed

lemma element_takeWhile:
  assumes "c \<noteq> CHR ''/''"
    and "\<not> (c = CHR ''.'' \<and> (case rest of [] \<Rightarrow> True | d # _ \<Rightarrow> d = CHR ''/''))"
    and "\<not> (c = CHR ''.'' \<and>
            (case rest of
               [] \<Rightarrow> False
             | d # rest' \<Rightarrow> d = CHR ''.'' \<and> (case rest' of [] \<Rightarrow> True | e # _ \<Rightarrow> e = CHR ''/'')))"
  shows "element (takeWhile (\<lambda>x. x \<noteq> CHR ''/'') (c # rest))"
proof -
  let ?e = "takeWhile (\<lambda>x. x \<noteq> CHR ''/'') (c # rest)"
  have e: "?e = c # takeWhile (\<lambda>x. x \<noteq> CHR ''/'') rest"
    using assms(1) by simp
  have no_slash: "CHR ''/'' \<notin> set ?e"
    by (metis (mono_tags, lifting) set_takeWhileD)
  have not_dot: "?e \<noteq> ''.''"
    using assms(2) unfolding e by (cases rest) (auto split: if_splits)
  have not_dotdot: "?e \<noteq> ''..''"
  proof (cases rest)
    case Nil
    then show ?thesis unfolding e by simp
  next
    case (Cons d rest')
    then show ?thesis
      using assms(2,3) unfolding e by (cases rest') (auto split: if_splits)
  qed
  have "?e \<noteq> []"
    unfolding e by simp
  then show ?thesis
    unfolding element_def using no_slash not_dot not_dotdot by blast
qed

lemma clean_loop_element:
  assumes "c \<noteq> CHR ''/''"
    and "\<not> (c = CHR ''.'' \<and> (case rest of [] \<Rightarrow> True | d # _ \<Rightarrow> d = CHR ''/''))"
    and "\<not> (c = CHR ''.'' \<and>
            (case rest of
               [] \<Rightarrow> False
             | d # rest' \<Rightarrow> d = CHR ''.'' \<and> (case rest' of [] \<Rightarrow> True | e # _ \<Rightarrow> e = CHR ''/'')))"
  shows "clean_loop True out dotdot (c # rest) =
     clean_loop True
       ((if length out \<noteq> 1 then out @ ''/'' else out) @ takeWhile (\<lambda>x. x \<noteq> CHR ''/'') (c # rest))
       dotdot (dropWhile (\<lambda>x. x \<noteq> CHR ''/'') (c # rest))"
  by (subst clean_loop.simps) (simp only: assms if_False Let_def simp_thms)

lemma split_slash_not_Nil: "split_slash s \<noteq> []"
  by (induction s) (auto split: list.splits)

lemma split_slash_takeWhile:
  "split_slash p =
     takeWhile (\<lambda>x. x \<noteq> CHR ''/'') p # tl (split_slash (dropWhile (\<lambda>x. x \<noteq> CHR ''/'') p))"
proof (induction p)
  case Nil
  show ?case by simp
next
  case (Cons c s)
  show ?case
  proof (cases "c = CHR ''/''")
    case True
    then show ?thesis by simp
  next
    case False
    obtain x xs where s: "split_slash s = x # xs"
      using split_slash_not_Nil [of s] by (cases "split_slash s") auto
    with Cons.IH have "x = takeWhile (\<lambda>x. x \<noteq> CHR ''/'') s"
      and "xs = tl (split_slash (dropWhile (\<lambda>x. x \<noteq> CHR ''/'') s))"
      by simp_all
    with False s show ?thesis by simp
  qed
qed

lemma split_slash_no_slash: "x \<in> set (split_slash s) \<Longrightarrow> CHR ''/'' \<notin> set x"
  by (induction s arbitrary: x) (auto split: if_splits list.splits)

lemma split_slash_dropWhile:
  "split_slash (dropWhile (\<lambda>x. x \<noteq> CHR ''/'') p) =
     [] # tl (split_slash (dropWhile (\<lambda>x. x \<noteq> CHR ''/'') p))"
proof -
  define rest where "rest = dropWhile (\<lambda>x. x \<noteq> CHR ''/'') p"
  have "split_slash rest = [] # tl (split_slash rest)"
  proof (cases rest)
    case Nil
    then show ?thesis by simp
  next
    case (Cons c s)
    then have "c = CHR ''/''"
      using hd_dropWhile [of "\<lambda>x. x \<noteq> CHR ''/''" p] by (auto simp: rest_def)
    with Cons show ?thesis by simp
  qed
  then show ?thesis
    by (simp only: rest_def)
qed

lemma resolve_step_empty: "resolve_step cs [] = cs"
  by (simp add: resolve_step_def)

lemma foldl_resolve_split:
  "foldl resolve_step cs (split_slash p) =
   foldl resolve_step (resolve_step cs (takeWhile (\<lambda>x. x \<noteq> CHR ''/'') p))
     (split_slash (dropWhile (\<lambda>x. x \<noteq> CHR ''/'') p))"
proof -
  let ?rest = "dropWhile (\<lambda>x. x \<noteq> CHR ''/'') p"
  have "foldl resolve_step cs' (split_slash ?rest) = foldl resolve_step cs' (tl (split_slash ?rest))"
    for cs'
    by (subst split_slash_dropWhile) (simp add: resolve_step_empty)
  then show ?thesis
    by (subst split_slash_takeWhile) simp
qed

lemma element_resolve_step:
  "\<forall>c\<in>set cs. element c \<Longrightarrow> CHR ''/'' \<notin> set x \<Longrightarrow> \<forall>c\<in>set (resolve_step cs x). element c"
  by (auto simp: resolve_step_def element_def dest: in_set_butlastD)

lemma element_foldl_resolve:
  "\<forall>c\<in>set cs. element c \<Longrightarrow> \<forall>x\<in>set xs. CHR ''/'' \<notin> set x \<Longrightarrow>
   \<forall>c\<in>set (foldl resolve_step cs xs). element c"
proof (induction xs arbitrary: cs)
  case Nil
  then show ?case by simp
next
  case (Cons x xs)
  from Cons.prems have "\<forall>c\<in>set (resolve_step cs x). element c"
    by (intro element_resolve_step) simp_all
  with Cons show ?case by simp
qed

lemma clean_loop_slash:
  "clean_loop rooted out dotdot (CHR ''/'' # rest) = clean_loop rooted out dotdot rest"
  by (simp add: clean_loop.simps)

lemma clean_loop_dot:
  assumes "rest = [] \<or> hd rest = CHR ''/''"
  shows "clean_loop rooted out dotdot (CHR ''.'' # rest) = clean_loop rooted out dotdot rest"
  using assms by (cases rest) (simp_all add: clean_loop.simps)

lemma clean_loop_dotdot:
  assumes "rest = [] \<or> hd rest = CHR ''/''"
  shows "clean_loop True out 1 (CHR ''.'' # CHR ''.'' # rest) =
     (if 1 < length out then
        clean_loop True (take (backtrack out 1 (length out - 1)) out) 1 rest
      else clean_loop True out 1 rest)"
  using assms by (cases rest) (simp_all add: clean_loop.simps)

lemma dropWhile_at_slash:
  "rest = [] \<or> hd rest = CHR ''/'' \<Longrightarrow> dropWhile (\<lambda>x. x \<noteq> CHR ''/'') rest = rest"
  by (cases rest) auto

lemma takeWhile_at_slash:
  "rest = [] \<or> hd rest = CHR ''/'' \<Longrightarrow> takeWhile (\<lambda>x. x \<noteq> CHR ''/'') rest = []"
  by (cases rest) auto

lemma clean_loop_resolves:
  "\<forall>c\<in>set cs. element c \<Longrightarrow>
   clean_loop True (rooted_path cs) 1 p = rooted_path (foldl resolve_step cs (split_slash p))"
proof (induction p arbitrary: cs rule: length_induct)
  case (1 p)
  have IH: "clean_loop True (rooted_path cs) 1 q = rooted_path (foldl resolve_step cs (split_slash q))"
    if "length q < length p" and "\<forall>c\<in>set cs. element c" for q cs
    using "1.IH" that by blast
  note elems = "1.prems"
  let ?e = "takeWhile (\<lambda>x. x \<noteq> CHR ''/'') p"
  let ?rest = "dropWhile (\<lambda>x. x \<noteq> CHR ''/'') p"
  show ?case
  proof (cases p)
    case Nil
    then show ?thesis
      by (simp add: clean_loop.simps resolve_step_empty)
  next
    case (Cons c rest)
    let ?dot = "c = CHR ''.'' \<and> (case rest of [] \<Rightarrow> True | d # _ \<Rightarrow> d = CHR ''/'')"
    let ?dotdot = "c = CHR ''.'' \<and>
        (case rest of
           [] \<Rightarrow> False
         | d # rest' \<Rightarrow> d = CHR ''.'' \<and> (case rest' of [] \<Rightarrow> True | e # _ \<Rightarrow> e = CHR ''/''))"
    consider (slash) "c = CHR ''/''"
      | (dot) "c \<noteq> CHR ''/''" ?dot
      | (dotdot) "c \<noteq> CHR ''/''" "\<not> ?dot" ?dotdot
      | (elem) "c \<noteq> CHR ''/''" "\<not> ?dot" "\<not> ?dotdot"
      by blast
    then show ?thesis
    proof cases
      case slash
      have "clean_loop True (rooted_path cs) 1 p = clean_loop True (rooted_path cs) 1 rest"
        by (simp add: Cons slash clean_loop_slash)
      also have "\<dots> = rooted_path (foldl resolve_step cs (split_slash rest))"
        using elems by (intro IH) (simp_all add: Cons)
      also have "foldl resolve_step cs (split_slash rest) = foldl resolve_step cs (split_slash p)"
        by (simp add: Cons slash resolve_step_empty)
      finally show ?thesis .
    next
      case dot
      then have at: "rest = [] \<or> hd rest = CHR ''/''"
        by (cases rest) auto
      have p: "p = CHR ''.'' # rest"
        using dot by (simp add: Cons)
      have e: "?e = ''.''" and r: "?rest = rest"
        using at by (simp_all add: p takeWhile_at_slash dropWhile_at_slash)
      have "clean_loop True (rooted_path cs) 1 p = clean_loop True (rooted_path cs) 1 rest"
        unfolding p using at by (rule clean_loop_dot)
      also have "\<dots> = rooted_path (foldl resolve_step cs (split_slash rest))"
        using elems by (intro IH) (simp_all add: Cons)
      also have "foldl resolve_step cs (split_slash rest) = foldl resolve_step cs (split_slash p)"
        by (subst (2) foldl_resolve_split) (simp add: e r resolve_step_def)
      finally show ?thesis .
    next
      case dotdot
      then obtain rest' where rest: "rest = CHR ''.'' # rest'"
        and at: "rest' = [] \<or> hd rest' = CHR ''/''"
        by (cases rest; cases "tl rest") auto
      have p: "p = CHR ''.'' # CHR ''.'' # rest'"
        using dotdot by (simp add: Cons rest)
      have e: "?e = ''..''" and r: "?rest = rest'"
        using at by (simp_all add: p takeWhile_at_slash dropWhile_at_slash)
      have shorter: "length rest' < length p"
        by (simp add: p)
      have popped: "\<forall>c\<in>set (butlast cs). element c"
        using elems by (meson in_set_butlastD)
      have "clean_loop True (rooted_path cs) 1 p =
          clean_loop True (rooted_path (butlast cs)) 1 rest'"
      proof (cases "cs = []")
        case True
        then have "\<not> 1 < length (rooted_path cs)"
          by (simp add: rooted_path_def)
        then show ?thesis
          unfolding p by (subst clean_loop_dotdot [OF at]) (simp add: True)
      next
        case False
        then have "1 < length (rooted_path cs)"
          using length_rooted_path [OF elems] by simp
        then have "clean_loop True (rooted_path cs) 1 p =
            clean_loop True (take (backtrack (rooted_path cs) 1 (length (rooted_path cs) - 1))
              (rooted_path cs)) 1 rest'"
          unfolding p by (subst clean_loop_dotdot [OF at]) simp
        then show ?thesis
          using pop_element [OF elems False] by simp
      qed
      also have "\<dots> = rooted_path (foldl resolve_step (butlast cs) (split_slash rest'))"
        using shorter popped by (rule IH)
      also have "foldl resolve_step (butlast cs) (split_slash rest') =
          foldl resolve_step cs (split_slash p)"
        by (subst (2) foldl_resolve_split) (simp add: e r resolve_step_def)
      finally show ?thesis .
    next
      case elem
      have e: "element ?e"
        unfolding Cons using elem by (rule element_takeWhile)
      have "length ?rest \<le> length rest"
        using elem(1) by (simp add: Cons length_dropWhile_le)
      then have shorter: "length ?rest < length p"
        by (simp add: Cons)
      have pushed: "\<forall>c\<in>set (cs @ [?e]). element c"
        using elems e by simp
      have step: "resolve_step cs ?e = cs @ [?e]"
        using e by (simp add: resolve_step_def element_def)
      have "clean_loop True (rooted_path cs) 1 p =
          clean_loop True
            ((if length (rooted_path cs) \<noteq> 1 then rooted_path cs @ ''/'' else rooted_path cs) @ ?e)
            1 ?rest"
        unfolding Cons using elem by (rule clean_loop_element)
      also have "\<dots> = clean_loop True (rooted_path (cs @ [?e])) 1 ?rest"
        using push_element [OF elems] by simp
      also have "\<dots> = rooted_path (foldl resolve_step (cs @ [?e]) (split_slash ?rest))"
        using shorter pushed by (rule IH)
      also have "foldl resolve_step (cs @ [?e]) (split_slash ?rest) =
          foldl resolve_step cs (split_slash p)"
        by (subst (2) foldl_resolve_split) (simp add: step)
      finally show ?thesis .
    qed
  qed
qed

lemma path_Clean_resolves:
  assumes "HasPrefix p ''/''"
  shows "path_Clean p = rooted_path (foldl resolve_step [] (split_slash p))"
proof -
  from assms obtain rest where p: "p = CHR ''/'' # rest"
    by (auto simp: HasPrefix_iff)
  have start: "''/'' = rooted_path []"
    by (simp add: rooted_path_def)
  have "clean_loop True ''/'' 1 rest = rooted_path (foldl resolve_step [] (split_slash rest))"
    unfolding start by (rule clean_loop_resolves) simp
  moreover have "rooted_path cs \<noteq> []" for cs
    by (cases cs) (simp_all add: rooted_path_def)
  ultimately show ?thesis
    by (simp add: path_Clean_def p resolve_step_empty)
qed

lemma element_resolved: "\<forall>c\<in>set (foldl resolve_step [] (split_slash p)). element c"
  by (rule element_foldl_resolve) (simp_all add: split_slash_no_slash)

lemma path_Clean_lexically_cleaned:
  "HasPrefix p ''/'' \<Longrightarrow> path_Clean p = lexically_cleaned p"
  by (simp add: path_Clean_resolves lexically_cleaned_def)

lemma path_Clean_rooted:
  assumes "HasPrefix p ''/''"
  shows "\<exists>cs. path_Clean p = rooted_path cs \<and> (\<forall>c\<in>set cs. element c)"
  using path_Clean_resolves [OF assms] element_resolved [of p] by blast

section \<open>Normalization and cleaning of the request path\<close>

lemma normalized_rooted: "HasPrefix (normalized r) ''/''"
  by (simp add: normalized_def HasPrefix_def)

lemma opened_append: "opened (xs @ ys) = opened xs @ opened ys"
  by (induction xs rule: opened.induct) simp_all

lemma opened_redirect: "opened (redirect r dst) = []"
  by (simp add: redirect_def Let_def)

lemma opened_ServeHTTP:
  "opened (ServeHTTP h r) =
     (if indexRedirect h \<and> HasSuffix (normalized r) ''/index.html'' then []
      else if normalized r \<noteq> ''/'' \<and> HasSuffix (normalized r) ''/'' then
        opened (handleError h ErrNotExist)
      else
        path_Clean (normalized r) #
        (case fs h (path_Clean (normalized r)) of
           Inl err \<Rightarrow> opened (handleError h err)
         | Inr f \<Rightarrow>
             (case Stat f of
                Inl err \<Rightarrow> opened (handleError h err)
              | Inr fi \<Rightarrow> if IsRegular fi then [] else opened (handleError h ErrNotExist))))"
  unfolding ServeHTTP_unfold
  by (simp add: opened_redirect opened_append split: sum.splits)

text \<open>
  Claim C6. The path the handler works with is the raw path, with \<open>/\<close> put in front
  when it does not start with one; the redirect check reads this path as it is, not
  cleaned. When the lookup is reached, the first name opened is \<open>path.Clean\<close> of this
  path, and the only other name ever opened is the fallback path. \<open>path.Clean\<close> of this
  path is the path lexically cleaned: its elements from left to right, without the
  empty ones and \<open>.\<close>, each \<open>..\<close> removing the element kept before it and nothing at
  the root. So the cleaned path is \<open>/\<close> or a sequence of \<open>/element\<close> where no element
  is empty, contains a slash, or is \<open>.\<close> or \<open>..\<close>: it names a place under the root.
\<close>

theorem request_path_normalized_then_cleaned:
  "normalized r = (if HasPrefix (Path r) ''/'' then Path r else CHR ''/'' # Path r)
   \<and> (WriteHeader 301 \<in> set (ServeHTTP h r)) =
       (indexRedirect h \<and> HasSuffix (normalized r) ''/index.html'')
   \<and> (\<not> (indexRedirect h \<and> HasSuffix (normalized r) ''/index.html'')
        \<and> \<not> (normalized r \<noteq> ''/'' \<and> HasSuffix (normalized r) ''/'') \<longrightarrow>
        opened (ServeHTTP h r) = [path_Clean (normalized r)]
        \<or> opened (ServeHTTP h r) = [path_Clean (normalized r), fallback h])
   \<and> (indexRedirect h \<and> HasSuffix (normalized r) ''/index.html''
        \<or> normalized r \<noteq> ''/'' \<and> HasSuffix (normalized r) ''/'' \<longrightarrow>
        opened (ServeHTTP h r) = [] \<or> opened (ServeHTTP h r) = [fallback h])
   \<and> path_Clean (normalized r) = lexically_cleaned (normalized r)
   \<and> path_Clean (normalized r) =
       (if foldl resolve_step [] (split_slash (normalized r)) = [] then ''/''
        else concat (map ((#) CHR ''/'') (foldl resolve_step [] (split_slash (normalized r)))))
   \<and> (\<forall>c\<in>set (foldl resolve_step [] (split_slash (normalized r))).
          c \<noteq> [] \<and> CHR ''/'' \<notin> set c \<and> c \<noteq> ''.'' \<and> c \<noteq> ''..'')
   \<and> (\<exists>cs. path_Clean (normalized r) =
              (if cs = [] then ''/'' else concat (map ((#) CHR ''/'') cs))
          \<and> (\<forall>c\<in>set cs. c \<noteq> [] \<and> CHR ''/'' \<notin> set c \<and> c \<noteq> ''.'' \<and> c \<noteq> ''..''))"
proof -
  have prepend: "normalized r = (if HasPrefix (Path r) ''/'' then Path r else CHR ''/'' # Path r)"
    by (simp add: normalized_def)
  have check: "(WriteHeader 301 \<in> set (ServeHTTP h r)) =
      (indexRedirect h \<and> HasSuffix (normalized r) ''/index.html'')"
    by (simp add: WriteHeader_in_ServeHTTP)
  have fallback_names: "opened (handleError h err) = [] \<or> opened (handleError h err) = [fallback h]"
    for err
    by (simp add: opened_handleError)
  have lookup: "opened (ServeHTTP h r) = [path_Clean (normalized r)]
      \<or> opened (ServeHTTP h r) = [path_Clean (normalized r), fallback h]"
    if "\<not> (indexRedirect h \<and> HasSuffix (normalized r) ''/index.html'')
        \<and> \<not> (normalized r \<noteq> ''/'' \<and> HasSuffix (normalized r) ''/'')"
    using that fallback_names by (auto simp: opened_ServeHTTP split: sum.splits)
  have early: "opened (ServeHTTP h r) = [] \<or> opened (ServeHTTP h r) = [fallback h]"
    if "indexRedirect h \<and> HasSuffix (normalized r) ''/index.html''
        \<or> normalized r \<noteq> ''/'' \<and> HasSuffix (normalized r) ''/''"
    using that fallback_names [of ErrNotExist] by (auto simp: opened_ServeHTTP)
  have spec: "path_Clean (normalized r) = lexically_cleaned (normalized r)"
    using normalized_rooted by (rule path_Clean_lexically_cleaned)
  have resolved: "path_Clean (normalized r) =
       (if foldl resolve_step [] (split_slash (normalized r)) = [] then ''/''
        else concat (map ((#) CHR ''/'') (foldl resolve_step [] (split_slash (normalized r)))))"
    using path_Clean_resolves [OF normalized_rooted, of r] unfolding rooted_path_def .
  have elements: "\<forall>c\<in>set (foldl resolve_step [] (split_slash (normalized r))).
          c \<noteq> [] \<and> CHR ''/'' \<notin> set c \<and> c \<noteq> ''.'' \<and> c \<noteq> ''..''"
    using element_resolved [of "normalized r"] unfolding element_def .
  have cleaned: "\<exists>cs. path_Clean (normalized r) =
              (if cs = [] then ''/'' else concat (map ((#) CHR ''/'') cs))
          \<and> (\<forall>c\<in>set cs. c \<noteq> [] \<and> CHR ''/'' \<notin> set c \<and> c \<noteq> ''.'' \<and> c \<noteq> ''..'')"
    using path_Clean_rooted [OF normalized_rooted, of r]
    unfolding rooted_path_def element_def .
  show ?thesis
    using prepend check lookup early spec resolved elements cleaned by (intro conjI impI)
qed

theorem request_path_normalized_then_cleaned_witness:
  "WriteHeader 301 \<in> set (ServeHTTP (StaticHandler testFS [])
      (makeRequest ''GET'' ''a/./index.html'' [] []))
   \<and> WriteHeader 301 \<notin> set (ServeHTTP (StaticHandler testFS [])
      (makeRequest ''GET'' ''/index.html/.'' [] []))
   \<and> split_slash (normalized (makeRequest ''GET'' ''static/img/../css//./../../../secret/x.txt'' [] [])) =
       [[], ''static'', ''img'', ''..'', ''css'', [], ''.'', ''..'', ''..'', ''..'', ''secret'',
        ''x.txt'']
   \<and> lexically_cleaned (normalized (makeRequest ''GET'' ''dir/sub/../test.js'' [] [])) =
       ''/dir/test.js''
   \<and> path_Clean (normalized (makeRequest ''GET'' ''dir/sub/../test.js'' [] [])) = ''/dir/test.js''
   \<and> path_Clean ''/dir/sub/../test.js'' = ''/dir/test.js''
   \<and> path_Clean (normalized
         (makeRequest ''GET'' ''static/img/../css//./../../../secret/x.txt'' [] [])) =
       ''/secret/x.txt''
   \<and> opened (ServeHTTP (StaticHandler testFS []) (makeRequest ''GET'' ''dir/sub/../test.js'' [] [])) =
       [''/dir/test.js'']
   \<and> (opened (ServeHTTP (StaticHandler testFS [])
          (makeRequest ''GET'' ''static/img/../css//./../../../secret/x.txt'' [] [])) =
        [''/secret/x.txt'']
      \<or> opened (ServeHTTP (StaticHandler testFS [])
          (makeRequest ''GET'' ''static/img/../css//./../../../secret/x.txt'' [] [])) =
        [''/secret/x.txt'', ''/index.html''])"
proof -
  let ?h = "StaticHandler testFS []"
  let ?a = "makeRequest ''GET'' ''a/./index.html'' [] []"
  let ?b = "makeRequest ''GET'' ''/index.html/.'' [] []"
  let ?c = "makeRequest ''GET'' ''static/img/../css//./../../../secret/x.txt'' [] []"
  let ?d = "makeRequest ''GET'' ''dir/sub/../test.js'' [] []"
  have h: "indexRedirect ?h" "fallback ?h = ''/index.html''" "fs ?h = testFS"
    by (simp_all add: StaticHandler_def)
  have n: "normalized ?a = ''/a/./index.html''" "normalized ?b = ''/index.html/.''"
    "normalized ?c = ''/static/img/../css//./../../../secret/x.txt''"
    "normalized ?d = ''/dir/sub/../test.js''"
    by (simp_all add: normalized_def makeRequest_def HasPrefix_def)
  have split: "split_slash (normalized ?c) =
      [[], ''static'', ''img'', ''..'', ''css'', [], ''.'', ''..'', ''..'', ''..'', ''secret'',
       ''x.txt'']"
    unfolding n by simp
  have spec_d: "lexically_cleaned (normalized ?d) = ''/dir/test.js''"
    unfolding n by (simp add: lexically_cleaned_def resolve_step_def rooted_path_def)
  have spec_c: "lexically_cleaned (normalized ?c) = ''/secret/x.txt''"
    unfolding n by (simp add: lexically_cleaned_def resolve_step_def rooted_path_def)
  note cleaned = request_path_normalized_then_cleaned [THEN conjunct2, THEN conjunct2,
      THEN conjunct2, THEN conjunct2, THEN conjunct1]
  have clean_d: "path_Clean (normalized ?d) = ''/dir/test.js''"
    using cleaned [of ?d] spec_d by simp
  have clean_c: "path_Clean (normalized ?c) = ''/secret/x.txt''"
    using cleaned [of ?c] spec_c by simp
  have loop: "path_Clean ''/dir/sub/../test.js'' = ''/dir/test.js''"
    by code_simp
  have "indexRedirect ?h \<and> HasSuffix (normalized ?a) ''/index.html''"
    by (simp add: h n HasSuffix_def)
  then have fires: "WriteHeader 301 \<in> set (ServeHTTP ?h ?a)"
    using request_path_normalized_then_cleaned [of ?a ?h, THEN conjunct2, THEN conjunct1]
    by simp
  have "\<not> (indexRedirect ?h \<and> HasSuffix (normalized ?b) ''/index.html'')"
    by (simp add: n HasSuffix_def)
  then have silent: "WriteHeader 301 \<notin> set (ServeHTTP ?h ?b)"
    using request_path_normalized_then_cleaned [of ?b ?h, THEN conjunct2, THEN conjunct1]
    by simp
  have "\<not> (indexRedirect ?h \<and> HasSuffix (normalized ?c) ''/index.html'')
      \<and> \<not> (normalized ?c \<noteq> ''/'' \<and> HasSuffix (normalized ?c) ''/'')"
    by (simp add: n HasSuffix_def)
  then have "opened (ServeHTTP ?h ?c) = [path_Clean (normalized ?c)]
      \<or> opened (ServeHTTP ?h ?c) = [path_Clean (normalized ?c), fallback ?h]"
    by (rule request_path_normalized_then_cleaned [of ?c ?h, THEN conjunct2, THEN conjunct2,
      THEN conjunct1, THEN mp])
  then have names_c: "opened (ServeHTTP ?h ?c) = [''/secret/x.txt'']
      \<or> opened (ServeHTTP ?h ?c) = [''/secret/x.txt'', ''/index.html'']"
    unfolding clean_c h(2) .
  have "\<not> (indexRedirect ?h \<and> HasSuffix (normalized ?d) ''/index.html'')"
    "\<not> (normalized ?d \<noteq> ''/'' \<and> HasSuffix (normalized ?d) ''/'')"
    by (simp_all add: n HasSuffix_def)
  then have "ServeHTTP ?h ?d =
      [FsOpen (path_Clean (normalized ?d)) None, FileStat (path_Clean (normalized ?d)) None,
       ServeContent ''test.js'' 5 ''void 0;'', FileClose (path_Clean (normalized ?d))]"
    using ServeHTTP_hit [of ?h ?d "regular_file ''test.js'' 5 ''void 0;''"
        "\<lparr>Name = ''test.js'', ModTime = 5, IsRegular = True\<rparr>"]
    by (simp add: clean_d h testFS_def regular_file_def)
  then have names_d: "opened (ServeHTTP ?h ?d) = [''/dir/test.js'']"
    by (simp add: clean_d)
  show ?thesis
    using fires silent split spec_d clean_d loop clean_c names_d names_c by (intro conjI)
qed

section \<open>Entries that are not regular files\<close>

lemma handleError_class:
  "errors_Is e ErrNotExist \<or> errors_Is e ErrPermission \<Longrightarrow>
   handleError h e = handleError h ErrNotExist"
  by (auto simp: handleError_def)

lemma handleError_io:
  "\<not> (errors_Is e ErrNotExist \<or> errors_Is e ErrPermission) \<Longrightarrow>
   handleError h e = [HttpError ''Internal Server Error'' 500]"
  by (simp add: handleError_fatal)

text \<open>
  Claim C4, as amended. Let the lookup be reached (no redirect, no trailing-slash
  rejection). If the path opens and its entry is not a regular file, \<open>handleError\<close> is
  entered with \<open>fs.ErrNotExist\<close>, the value the trailing-slash rejection uses; the
  response is the one \<open>handleError\<close> gives for \<open>fs.ErrNotExist\<close>, and any content
  served is served by \<open>handleError\<close>, that is from the fallback: the entry is never
  listed. If \<open>Open\<close> or \<open>Stat\<close> fails, \<open>handleError\<close> is entered with that error
  itself. Every error that is a not-exist or a permission error is handled exactly as
  \<open>fs.ErrNotExist\<close> is, and every other error gives the generic 500.
\<close>

theorem lookup_failure_error_values:
  assumes "\<not> (indexRedirect h \<and> HasSuffix (normalized r) ''/index.html'')"
    and "\<not> (normalized r \<noteq> ''/'' \<and> HasSuffix (normalized r) ''/'')"
  shows "(\<forall>f fi. fs h (path_Clean (normalized r)) = Inr f \<and> Stat f = Inr fi \<and> \<not> IsRegular fi \<longrightarrow>
            ServeHTTP h r =
              FsOpen (path_Clean (normalized r)) None # FileStat (path_Clean (normalized r)) None #
              CallHandleError ErrNotExist # handleError h ErrNotExist
              @ [FileClose (path_Clean (normalized r))]
            \<and> response_of sc r (ServeHTTP h r) = response_of sc r (handleError h ErrNotExist)
            \<and> (\<forall>n m d. ServeContent n m d \<in> set (ServeHTTP h r) \<longrightarrow>
                  ServeContent n m d \<in> set (handleError h ErrNotExist)))
    \<and> (\<forall>e. fs h (path_Clean (normalized r)) = Inl e \<longrightarrow>
            ServeHTTP h r =
              FsOpen (path_Clean (normalized r)) (Some e) # CallHandleError e # handleError h e
            \<and> response_of sc r (ServeHTTP h r) = response_of sc r (handleError h e))
    \<and> (\<forall>f e. fs h (path_Clean (normalized r)) = Inr f \<and> Stat f = Inl e \<longrightarrow>
            ServeHTTP h r =
              FsOpen (path_Clean (normalized r)) None #
              FileStat (path_Clean (normalized r)) (Some e) #
              CallHandleError e # handleError h e @ [FileClose (path_Clean (normalized r))]
            \<and> response_of sc r (ServeHTTP h r) = response_of sc r (handleError h e))
    \<and> (\<forall>e. errors_Is e ErrNotExist \<or> errors_Is e ErrPermission \<longrightarrow>
            handleError h e = handleError h ErrNotExist)
    \<and> (\<forall>e. \<not> (errors_Is e ErrNotExist \<or> errors_Is e ErrPermission) \<longrightarrow>
            handleError h e = [HttpError ''Internal Server Error'' 500])"
proof -
  let ?p = "path_Clean (normalized r)"
  have not_regular: "ServeHTTP h r =
        FsOpen ?p None # FileStat ?p None # CallHandleError ErrNotExist #
        handleError h ErrNotExist @ [FileClose ?p]
      \<and> response_of sc r (ServeHTTP h r) = response_of sc r (handleError h ErrNotExist)
      \<and> (\<forall>n m d. ServeContent n m d \<in> set (ServeHTTP h r) \<longrightarrow>
            ServeContent n m d \<in> set (handleError h ErrNotExist))"
    if "fs h ?p = Inr f \<and> Stat f = Inr fi \<and> \<not> IsRegular fi" for f fi
  proof -
    have run: "ServeHTTP h r =
        FsOpen ?p None # FileStat ?p None # CallHandleError ErrNotExist #
        handleError h ErrNotExist @ [FileClose ?p]"
      using ServeHTTP_not_regular [OF assms, of f fi] that by blast
    show ?thesis
      unfolding run by (simp add: response_of_def)
  qed
  have open_fails: "ServeHTTP h r = FsOpen ?p (Some e) # CallHandleError e # handleError h e
      \<and> response_of sc r (ServeHTTP h r) = response_of sc r (handleError h e)"
    if "fs h ?p = Inl e" for e
    using ServeHTTP_open_fails [OF assms that] by (simp add: response_of_def)
  have stat_fails: "ServeHTTP h r =
        FsOpen ?p None # FileStat ?p (Some e) # CallHandleError e # handleError h e @ [FileClose ?p]
      \<and> response_of sc r (ServeHTTP h r) = response_of sc r (handleError h e)"
    if "fs h ?p = Inr f \<and> Stat f = Inl e" for f e
  proof -
    have run: "ServeHTTP h r =
        FsOpen ?p None # FileStat ?p (Some e) # CallHandleError e # handleError h e @ [FileClose ?p]"
      using ServeHTTP_stat_fails [OF assms, of f e] that by blast
    show ?thesis
      unfolding run by (simp add: response_of_def)
  qed
  show ?thesis
  proof (intro conjI)
    show "\<forall>e. errors_Is e ErrNotExist \<or> errors_Is e ErrPermission \<longrightarrow>
        handleError h e = handleError h ErrNotExist"
      using handleError_class by blast
    show "\<forall>e. \<not> (errors_Is e ErrNotExist \<or> errors_Is e ErrPermission) \<longrightarrow>
        handleError h e = [HttpError ''Internal Server Error'' 500]"
      using handleError_io by blast
  qed (use not_regular open_fails stat_fails in blast)+
qed

text \<open>
  Claim C4 as stated fails: it has every failed \<open>Open\<close> that is not an I/O failure
  carry the canonical \<open>fs.ErrNotExist\<close>. Here \<open>Open\<close> is refused with a permission
  error, the fallback is served, and \<open>handleError\<close> was entered with the permission
  error, never with \<open>fs.ErrNotExist\<close>.
\<close>

theorem open_failure_keeps_its_error_counterexample:
  "ServeHTTP (StaticHandler lockedFS []) (makeRequest ''GET'' ''/private'' [] []) =
     [FsOpen ''/private'' (Some (PathError ''open'' ''/private'' ErrPermission)),
      CallHandleError (PathError ''open'' ''/private'' ErrPermission),
      FsOpen ''/index.html'' None, FileStat ''/index.html'' None,
      ServeContent ''index.html'' 2 ''<html>index</html>'', FileClose ''/index.html'']
   \<and> CallHandleError ErrNotExist
       \<notin> set (ServeHTTP (StaticHandler lockedFS []) (makeRequest ''GET'' ''/private'' [] []))
   \<and> errors_Is (PathError ''open'' ''/private'' ErrPermission) ErrPermission"
proof -
  let ?h = "StaticHandler lockedFS []"
  let ?r = "makeRequest ''GET'' ''/private'' [] []"
  have h: "indexRedirect ?h" "fallback ?h = ''/index.html''" "fs ?h = lockedFS"
    by (simp_all add: StaticHandler_def)
  have n: "normalized ?r = ''/private''"
    by (simp add: normalized_def makeRequest_def HasPrefix_def)
  have clean: "path_Clean ''/private'' = ''/private''"
    by code_simp
  have run: "ServeHTTP ?h ?r =
     [FsOpen ''/private'' (Some (PathError ''open'' ''/private'' ErrPermission)),
      CallHandleError (PathError ''open'' ''/private'' ErrPermission),
      FsOpen ''/index.html'' None, FileStat ''/index.html'' None,
      ServeContent ''index.html'' 2 ''<html>index</html>'', FileClose ''/index.html'']"
    by (simp add: ServeHTTP_unfold n clean h HasSuffix_def lockedFS_def testFS_def
        regular_file_def handleError_def)
  show ?thesis
    unfolding run by simp
qed

theorem lookup_failure_error_values_witness:
  "ServeHTTP (StaticHandler testFS []) (makeRequest ''GET'' ''/dir'' [] []) =
     FsOpen ''/dir'' None # FileStat ''/dir'' None # CallHandleError ErrNotExist #
     handleError (StaticHandler testFS []) ErrNotExist @ [FileClose ''/dir'']
   \<and> ServeHTTP (StaticHandler testFS []) (makeRequest ''GET'' ''/test.js'' [] []) =
     [FsOpen ''/test.js'' (Some (PathError ''open'' ''/test.js'' ErrNotExist)),
      CallHandleError (PathError ''open'' ''/test.js'' ErrNotExist)] @
     handleError (StaticHandler testFS []) ErrNotExist
   \<and> response_of plainResponder (makeRequest ''GET'' ''/dir'' [] [])
        (ServeHTTP (StaticHandler testFS []) (makeRequest ''GET'' ''/dir'' [] [])) =
     response_of plainResponder (makeRequest ''GET'' ''/dir'' [] [])
        (ServeHTTP (StaticHandler testFS []) (makeRequest ''GET'' ''/test.js'' [] []))"
proof -
  let ?h = "StaticHandler testFS []"
  let ?d = "makeRequest ''GET'' ''/dir'' [] []"
  let ?m = "makeRequest ''GET'' ''/test.js'' [] []"
  let ?e = "PathError ''open'' ''/test.js'' ErrNotExist"
  have h: "indexRedirect ?h" "fallback ?h = ''/index.html''" "fs ?h = testFS"
    by (simp_all add: StaticHandler_def)
  have n: "normalized ?d = ''/dir''" "normalized ?m = ''/test.js''"
    by (simp_all add: normalized_def makeRequest_def HasPrefix_def)
  have clean: "path_Clean ''/dir'' = ''/dir''" "path_Clean ''/test.js'' = ''/test.js''"
    by code_simp+
  have reached: "\<not> (indexRedirect ?h \<and> HasSuffix (normalized ?d) ''/index.html'')"
    "\<not> (normalized ?d \<noteq> ''/'' \<and> HasSuffix (normalized ?d) ''/'')"
    "\<not> (indexRedirect ?h \<and> HasSuffix (normalized ?m) ''/index.html'')"
    "\<not> (normalized ?m \<noteq> ''/'' \<and> HasSuffix (normalized ?m) ''/'')"
    by (simp_all add: n HasSuffix_def)
  have dir: "fs ?h (path_Clean (normalized ?d)) = Inr (directory ''dir'' 4)
      \<and> Stat (directory ''dir'' 4) = Inr \<lparr>Name = ''dir'', ModTime = 4, IsRegular = False\<rparr>
      \<and> \<not> IsRegular \<lparr>Name = ''dir'', ModTime = 4, IsRegular = False\<rparr>"
    by (simp add: n clean h testFS_def directory_def)
  have missing: "fs ?h (path_Clean (normalized ?m)) = Inl ?e"
    by (simp add: n clean h testFS_def)
  note on_dir = lookup_failure_error_values [OF reached(1,2), of plainResponder, THEN conjunct1, rule_format, OF dir]
  note on_missing = lookup_failure_error_values [OF reached(3,4), of plainResponder, THEN conjunct2, THEN conjunct1,
      rule_format, OF missing]
  have same: "handleError ?h ?e = handleError ?h ErrNotExist"
    by (rule lookup_failure_error_values [OF reached(3,4), THEN conjunct2, THEN conjunct2, THEN conjunct2,
      THEN conjunct1, rule_format]) simp
  have run_dir: "ServeHTTP ?h ?d =
      FsOpen ''/dir'' None # FileStat ''/dir'' None # CallHandleError ErrNotExist #
      handleError ?h ErrNotExist @ [FileClose ''/dir'']"
    using on_dir [THEN conjunct1] by (simp add: n clean)
  have run_missing: "ServeHTTP ?h ?m =
      [FsOpen ''/test.js'' (Some ?e), CallHandleError ?e] @ handleError ?h ErrNotExist"
    using on_missing [THEN conjunct1] by (simp add: n clean same)
  have "response_of plainResponder ?d (ServeHTTP ?h ?d) =
      response_of plainResponder ?d (handleError ?h ErrNotExist)"
    using on_dir [THEN conjunct2] by (rule conjunct1)
  moreover have "response_of plainResponder ?d (ServeHTTP ?h ?m) =
      response_of plainResponder ?d (handleError ?h ErrNotExist)"
    unfolding run_missing by (simp add: response_of_def)
  ultimately have reply: "response_of plainResponder ?d (ServeHTTP ?h ?d) =
      response_of plainResponder ?d (ServeHTTP ?h ?m)"
    by simp
  show ?thesis
    using run_dir run_missing reply by (intro conjI)
qed

section \<open>File handles\<close>

lemma peak_open_ge: "length hs \<le> peak_open hs calls"
  by (cases calls) simp_all

lemma peak_open_append:
  "peak_open hs (xs @ ys) = max (peak_open hs xs) (peak_open (foldl step_handles hs xs) ys)"
proof (induction xs arbitrary: hs)
  case Nil
  show ?case
    using peak_open_ge [of hs ys] by simp
next
  case (Cons x xs)
  then show ?case
    by (simp add: max.assoc)
qed

lemma handles_after_handleError: "foldl step_handles hs (handleError h err) = hs"
  by (auto simp: handleError_def split: sum.splits)

lemma peak_open_handleError:
  "peak_open hs (handleError h err) =
     (if fallback_opens h err then Suc (length hs) else length hs)"
  by (auto simp: handleError_def fallback_opens_def split: sum.splits)

lemma handles_after_redirect: "foldl step_handles hs (redirect r dst) = hs"
  by (simp add: redirect_def Let_def)

lemma peak_open_redirect: "peak_open hs (redirect r dst) = length hs"
  by (simp add: redirect_def Let_def)

lemma handles_after_ServeHTTP: "foldl step_handles [] (ServeHTTP h r) = []"
  unfolding ServeHTTP_unfold
  by (simp add: handles_after_redirect handles_after_handleError split: sum.splits)

lemma peak_open_ServeHTTP:
  "peak_open [] (ServeHTTP h r) =
     (if indexRedirect h \<and> HasSuffix (normalized r) ''/index.html'' then 0
      else if normalized r \<noteq> ''/'' \<and> HasSuffix (normalized r) ''/'' then
        (if fallback_opens h ErrNotExist then 1 else 0)
      else
        case fs h (path_Clean (normalized r)) of
          Inl err \<Rightarrow> if fallback_opens h err then 1 else 0
        | Inr f \<Rightarrow>
            (case Stat f of
               Inl err \<Rightarrow> if fallback_opens h err then 2 else 1
             | Inr fi \<Rightarrow> if \<not> IsRegular fi \<and> fallback_opens h ErrNotExist then 2 else 1))"
  unfolding ServeHTTP_unfold
  by (simp add: peak_open_redirect peak_open_handleError peak_open_append
      handles_after_handleError split: sum.splits)

text \<open>
  Claim C9, as amended. Every handle the handler opens is closed when it returns, in
  the main lookup and in the fallback lookup, whatever the path taken. The fallback
  lookup opens at most one handle and a request at most two. At most two handles are
  open at the same moment, and two are exactly when the main lookup opened its entry,
  the entry's \<open>Stat\<close> failed with a not-exist or permission error or the entry is not a
  regular file, and the non-empty fallback path opened: the deferred close of the
  first handle runs after \<open>handleError\<close> has returned.
\<close>

theorem handles_closed_at_most_two_open:
  "open_after (ServeHTTP h r) = []
   \<and> open_after (handleError h err) = []
   \<and> length (opened (handleError h err)) \<le> 1
   \<and> length (opened (ServeHTTP h r)) \<le> 2
   \<and> peak_open [] (handleError h err) \<le> 1
   \<and> peak_open [] (ServeHTTP h r) \<le> 2
   \<and> (peak_open [] (ServeHTTP h r) = 2) =
       (\<not> (indexRedirect h \<and> HasSuffix (normalized r) ''/index.html'')
        \<and> \<not> (normalized r \<noteq> ''/'' \<and> HasSuffix (normalized r) ''/'')
        \<and> (\<exists>f. fs h (path_Clean (normalized r)) = Inr f
               \<and> (case Stat f of
                     Inl e \<Rightarrow> errors_Is e ErrNotExist \<or> errors_Is e ErrPermission
                   | Inr fi \<Rightarrow> \<not> IsRegular fi))
        \<and> fallback h \<noteq> [] \<and> (\<exists>g. fs h (fallback h) = Inr g))"
proof -
  have closed: "open_after (ServeHTTP h r) = []"
    by (simp add: open_after_def handles_after_ServeHTTP)
  have closed_fb: "open_after (handleError h err) = []"
    by (simp add: open_after_def handles_after_handleError)
  have one_name: "length (opened (handleError h e)) \<le> 1" for e
    by (simp add: opened_handleError)
  have two_names: "length (opened (ServeHTTP h r)) \<le> 2"
    using one_name by (auto simp: opened_ServeHTTP opened_handleError split: sum.splits)
  have peak_fb: "peak_open [] (handleError h err) \<le> 1"
    by (simp add: peak_open_handleError)
  have peak: "peak_open [] (ServeHTTP h r) \<le> 2"
    by (simp add: peak_open_ServeHTTP split: sum.splits)
  have both: "(peak_open [] (ServeHTTP h r) = 2) =
       (\<not> (indexRedirect h \<and> HasSuffix (normalized r) ''/index.html'')
        \<and> \<not> (normalized r \<noteq> ''/'' \<and> HasSuffix (normalized r) ''/'')
        \<and> (\<exists>f. fs h (path_Clean (normalized r)) = Inr f
               \<and> (case Stat f of
                     Inl e \<Rightarrow> errors_Is e ErrNotExist \<or> errors_Is e ErrPermission
                   | Inr fi \<Rightarrow> \<not> IsRegular fi))
        \<and> fallback h \<noteq> [] \<and> (\<exists>g. fs h (fallback h) = Inr g))"
    by (auto simp: peak_open_ServeHTTP fallback_opens_def split: sum.splits)
  show ?thesis
    using closed closed_fb one_name [of err] two_names peak_fb peak both by (intro conjI)
qed

text \<open>
  Claim C9 as stated fails in "at most one at a time": for the directory \<open>/dir\<close> of
  the tests the fallback is opened while the handle of \<open>/dir\<close> is still open.
\<close>

theorem directory_request_two_handles_counterexample:
  "ServeHTTP (StaticHandler testFS []) (makeRequest ''GET'' ''/dir'' [] []) =
     [FsOpen ''/dir'' None, FileStat ''/dir'' None, CallHandleError ErrNotExist,
      FsOpen ''/index.html'' None, FileStat ''/index.html'' None,
      ServeContent ''index.html'' 2 ''<html>index</html>'',
      FileClose ''/index.html'', FileClose ''/dir'']
   \<and> open_after [FsOpen ''/dir'' None, FileStat ''/dir'' None, CallHandleError ErrNotExist,
        FsOpen ''/index.html'' None] = [''/index.html'', ''/dir'']
   \<and> \<not> peak_open [] (ServeHTTP (StaticHandler testFS []) (makeRequest ''GET'' ''/dir'' [] [])) \<le> 1"
proof -
  let ?h = "StaticHandler testFS []"
  let ?r = "makeRequest ''GET'' ''/dir'' [] []"
  have h: "indexRedirect ?h" "fallback ?h = ''/index.html''" "fs ?h = testFS"
    by (simp_all add: StaticHandler_def)
  have n: "normalized ?r = ''/dir''"
    by (simp add: normalized_def makeRequest_def HasPrefix_def)
  have clean: "path_Clean ''/dir'' = ''/dir''"
    by code_simp
  have run: "ServeHTTP ?h ?r =
     [FsOpen ''/dir'' None, FileStat ''/dir'' None, CallHandleError ErrNotExist,
      FsOpen ''/index.html'' None, FileStat ''/index.html'' None,
      ServeContent ''index.html'' 2 ''<html>index</html>'',
      FileClose ''/index.html'', FileClose ''/dir'']"
    by (simp add: ServeHTTP_unfold n clean h HasSuffix_def testFS_def directory_def
        regular_file_def handleError_def)
  show ?thesis
    unfolding run by (simp add: open_after_def)
qed

theorem handles_closed_at_most_two_open_witness:
  "open_after (ServeHTTP (StaticHandler testFS []) (makeRequest ''GET'' ''/dir'' [] [])) = []
   \<and> peak_open [] (ServeHTTP (StaticHandler testFS []) (makeRequest ''GET'' ''/dir'' [] [])) = 2
   \<and> peak_open [] (ServeHTTP (StaticHandler testFS []) (makeRequest ''GET'' ''/test.css'' [] [])) \<le> 2
   \<and> peak_open [] (ServeHTTP (StaticHandler testFS []) (makeRequest ''GET'' ''/test.css'' [] [])) \<noteq> 2"
proof -
  let ?h = "StaticHandler testFS []"
  let ?d = "makeRequest ''GET'' ''/dir'' [] []"
  let ?c = "makeRequest ''GET'' ''/test.css'' [] []"
  have h: "indexRedirect ?h" "fallback ?h = ''/index.html''" "fs ?h = testFS"
    by (simp_all add: StaticHandler_def)
  have n: "normalized ?d = ''/dir''" "normalized ?c = ''/test.css''"
    by (simp_all add: normalized_def makeRequest_def HasPrefix_def)
  have clean: "path_Clean ''/dir'' = ''/dir''" "path_Clean ''/test.css'' = ''/test.css''"
    by code_simp+
  have closed: "open_after (ServeHTTP ?h ?d) = []"
    using handles_closed_at_most_two_open [of ?h ?d] by (rule conjunct1)
  have "\<not> (indexRedirect ?h \<and> HasSuffix (normalized ?d) ''/index.html'')
        \<and> \<not> (normalized ?d \<noteq> ''/'' \<and> HasSuffix (normalized ?d) ''/'')
        \<and> (\<exists>f. fs ?h (path_Clean (normalized ?d)) = Inr f
               \<and> (case Stat f of
                     Inl e \<Rightarrow> errors_Is e ErrNotExist \<or> errors_Is e ErrPermission
                   | Inr fi \<Rightarrow> \<not> IsRegular fi))
        \<and> fallback ?h \<noteq> [] \<and> (\<exists>g. fs ?h (fallback ?h) = Inr g)"
    by (simp add: n clean h HasSuffix_def testFS_def directory_def)
  then have two: "peak_open [] (ServeHTTP ?h ?d) = 2"
    using handles_closed_at_most_two_open [of ?h ?d, THEN conjunct2, THEN conjunct2, THEN conjunct2, THEN conjunct2,
      THEN conjunct2, THEN conjunct2] by (rule iffD2 [rotated])
  have bound: "peak_open [] (ServeHTTP ?h ?c) \<le> 2"
    using handles_closed_at_most_two_open [of ?h ?c, THEN conjunct2, THEN conjunct2, THEN conjunct2, THEN conjunct2,
      THEN conjunct2] by (rule conjunct1)
  have "\<not> (\<exists>f. fs ?h (path_Clean (normalized ?c)) = Inr f
               \<and> (case Stat f of
                     Inl e \<Rightarrow> errors_Is e ErrNotExist \<or> errors_Is e ErrPermission
                   | Inr fi \<Rightarrow> \<not> IsRegular fi))"
    by (simp add: n clean h testFS_def regular_file_def)
  then have one: "peak_open [] (ServeHTTP ?h ?c) \<noteq> 2"
    using handles_closed_at_most_two_open [of ?h ?c, THEN conjunct2, THEN conjunct2, THEN conjunct2, THEN conjunct2,
      THEN conjunct2, THEN conjunct2] by blast
  show ?thesis
    using closed two bound one by (intro conjI)
qed

end
